theory Spec2Isabelle
  imports Complex_Main "HOL-Library.Sublist" "HOL-Library.Log_Nat"
begin

section \<open>AeroHire: integrity scoring, execution reports and the recruiter view\<close>

text \<open>
  The development follows the TypeScript sources of the candidate assessment page
  (\<^verbatim>\<open>Assessment.tsx\<close>: the telemetry producer) and of the recruiter's candidate
  detail page (\<^verbatim>\<open>CandidateDetail.tsx\<close>: rationale parsing, resume consistency,
  originality, integrity rationale).  The Python backend (sandbox executor, test
  harness, integrity aggregator) is not part of the sources; the definitions that stand
  for it are marked as modelled from the specification.
\<close>

subsection \<open>Severities and integrity events\<close>

datatype severity = LOW | MEDIUM | HIGH

record IntegrityEvent =
  event_type :: string
  event_severity :: severity
  event_timestamp :: int

subsection \<open>Integrity Aggregator\<close>

text \<open>
  Modelled from the spec: the Integrity Aggregator lives in the backend, which is missing
  from the sources.  The weight of a severity: LOW 2, MEDIUM 5, HIGH 10.
\<close>

fun weight :: "severity \<Rightarrow> int" where
  "weight LOW = 2"
| "weight MEDIUM = 5"
| "weight HIGH = 10"

text \<open>
  Modelled from the spec: the missing aggregator's step.  Each logged event lowers the
  score by the weight of its severity.
\<close>

definition deduct :: "int \<Rightarrow> IntegrityEvent \<Rightarrow> int" where
  "deduct score e = score - weight (event_severity e)"

text \<open>
  Modelled from the spec: the missing \<^verbatim>\<open>ComputeIntegrityScore\<close>.  The specification and
  the repository's manuals describe it as: the score starts at 100, each event in the
  ordered list lowers it by its weight, and the minimum score is 0.
\<close>

definition ComputeIntegrityScore :: "IntegrityEvent list \<Rightarrow> int" where
  "ComputeIntegrityScore events = max 0 (foldl deduct 100 events)"

text \<open>
  Modelled from the spec: the missing aggregator's "high severity count", the number of
  HIGH events.
\<close>

definition highSeverityCount :: "IntegrityEvent list \<Rightarrow> nat" where
  "highSeverityCount events = length (filter (\<lambda>e. event_severity e = HIGH) events)"

subsection \<open>Test Harness and ExecutionReport\<close>

datatype test_status = passed | failed | error

record TestResult =
  test :: nat
  status :: test_status
  message :: "string option"

datatype submit_status = success | partial | submit_error

record ExecutionReport =
  submission_id :: nat
  report_status :: submit_status
  tests_passed :: nat
  tests_total :: nat
  execution_time_ms :: nat
  results :: "TestResult list"
  is_passed :: bool
  mock_mode :: bool
  report_error :: "string option"

text \<open>
  Modelled from the spec: the result collection of the Test Harness, which is backend code
  missing from the sources.  Following the specification, the harness invokes the Sandbox
  Executor once per test case in test-case order, and a submission that does not compile
  marks every test case as \<open>error\<close> with the same message without executing it.  The
  Sandbox Executor and the compile check are parameters; a result is paired with its
  elapsed time.
\<close>

definition collectResults ::
    "('code \<Rightarrow> bool) \<Rightarrow> ('code \<Rightarrow> 'tc \<Rightarrow> test_status \<times> nat) \<Rightarrow> 'code \<Rightarrow> 'tc list
      \<Rightarrow> (TestResult \<times> nat) list" where
  "collectResults compiles execute code tcs =
     (if compiles code
      then map (\<lambda>(i, tc). (\<lparr>test = Suc i, status = fst (execute code tc), message = None\<rparr>,
                               snd (execute code tc)))
             (enumerate 0 tcs)
      else map (\<lambda>(i, tc). (\<lparr>test = Suc i, status = error, message = Some ''SyntaxError''\<rparr>, 0))
             (enumerate 0 tcs))"

text \<open>
  Modelled from the spec: the missing \<^verbatim>\<open>RunTestSuite\<close>.  Following the specification,
  the report counts the passed results and all results, takes the maximum single-test time
  as the aggregate time, carries the operating-mode flag, and sets \<open>is_passed\<close> as the
  specification's invariant gives it.
\<close>

definition RunTestSuite ::
    "bool \<Rightarrow> ('code \<Rightarrow> bool) \<Rightarrow> ('code \<Rightarrow> 'tc \<Rightarrow> test_status \<times> nat) \<Rightarrow> 'code \<Rightarrow> 'tc list
      \<Rightarrow> ExecutionReport" where
  "RunTestSuite mock compiles execute code tcs =
     (let rs = collectResults compiles execute code tcs;
          np = length (filter (\<lambda>r. status (fst r) = passed) rs);
          nt = length rs
      in \<lparr>submission_id = 0,
          report_status = (if np = nt \<and> 0 < nt then success
                           else if \<not> compiles code then submit_error else partial),
          tests_passed = np,
          tests_total = nt,
          execution_time_ms = foldl max 0 (map snd rs),
          results = map fst rs,
          is_passed = (np = nt \<and> 0 < nt),
          mock_mode = mock,
          report_error = (if compiles code then None else Some ''SyntaxError'')\<rparr>)"

text \<open>
  From the source (\<^verbatim>\<open>handleSubmit\<close> of the assessment page): the report the client
  substitutes when the submission request itself fails.
\<close>

definition errorResult :: ExecutionReport where
  "errorResult =
     \<lparr>submission_id = 0, report_status = submit_error, tests_passed = 0, tests_total = 0,
      execution_time_ms = 0, results = [], is_passed = False, mock_mode = False,
      report_error = Some ''Failed to submit code. Please try again.''\<rparr>"

definition report_invariant :: "ExecutionReport \<Rightarrow> bool" where
  "report_invariant r =
     (0 \<le> tests_passed r \<and> tests_passed r \<le> tests_total r \<and>
      (is_passed r = (tests_passed r = tests_total r \<and> 0 < tests_total r)))"

subsection \<open>JavaScript strings\<close>

text \<open>
  A JavaScript string is a sequence of UTF-16 code units.  The model takes \<^typ>\<open>string\<close>
  with a \<^typ>\<open>char\<close> read as the code unit of the same number, so it covers the strings whose
  code units are below 256 (ASCII and Latin-1).  \<open>toLowerCase\<close>, \<open>toUpperCase\<close>, the
  regular-expression class \<^verbatim>\<open>\s\<close> and \<open>trim\<close> are written out for that range.
\<close>

definition charCode :: "char \<Rightarrow> nat" where
  "charCode c = of_char c"

definition fromCharCode :: "nat \<Rightarrow> char" where
  "fromCharCode n = char_of n"

text \<open>
  \<^verbatim>\<open>String.prototype.toLowerCase\<close>: \<open>A\<close>--\<open>Z\<close> and the Latin-1 capitals
  (U+00C0--U+00DE without the multiplication sign U+00D7) move up by 32.
\<close>

definition toLowerCaseChar :: "char \<Rightarrow> char" where
  "toLowerCaseChar c =
     (let n = charCode c
      in if (65 \<le> n \<and> n \<le> 90) \<or> (192 \<le> n \<and> n \<le> 222 \<and> n \<noteq> 215)
         then fromCharCode (n + 32) else c)"

definition toLowerCase :: "string \<Rightarrow> string" where
  "toLowerCase s = map toLowerCaseChar s"

text \<open>
  \<^verbatim>\<open>String.prototype.toUpperCase\<close>: \<open>a\<close>--\<open>z\<close> and the Latin-1 small letters
  (U+00E0--U+00FE without the division sign U+00F7) move down by 32 and the sharp s
  (U+00DF) becomes \<open>SS\<close>.  The micro sign (U+00B5) and y with diaeresis (U+00FF) have
  capitals above U+00FF, which \<^typ>\<open>char\<close> does not hold: they are left as they are, and like
  their capitals they differ from every ASCII character.
\<close>

definition toUpperCaseChar :: "char \<Rightarrow> string" where
  "toUpperCaseChar c =
     (let n = charCode c
      in if (97 \<le> n \<and> n \<le> 122) \<or> (224 \<le> n \<and> n \<le> 254 \<and> n \<noteq> 247)
         then [fromCharCode (n - 32)]
         else if n = 223 then ''SS'' else [c])"

definition toUpperCase :: "string \<Rightarrow> string" where
  "toUpperCase s = concat (map toUpperCaseChar s)"

text \<open>
  The white space of \<^verbatim>\<open>\s\<close> and of \<open>trim\<close> below U+0100: tab, line feed, vertical
  tab, form feed, carriage return, space and the no-break space.
\<close>

definition isWhiteSpace :: "char \<Rightarrow> bool" where
  "isWhiteSpace c = (charCode c \<in> {9, 10, 11, 12, 13, 32, 160})"

definition trim :: "string \<Rightarrow> string" where
  "trim s = rev (dropWhile isWhiteSpace (rev (dropWhile isWhiteSpace s)))"

text \<open>\<^verbatim>\<open>Array.prototype.join\<close> on strings.\<close>

fun join :: "string \<Rightarrow> string list \<Rightarrow> string" where
  "join sep [] = []"
| "join sep [x] = x"
| "join sep (x # y # ys) = x @ sep @ join sep (y # ys)"

text \<open>\<^verbatim>\<open>s.replace(/\s+/g, ' ')\<close>: every maximal run of white space becomes one space.\<close>

function collapseWhiteSpace :: "string \<Rightarrow> string" where
  "collapseWhiteSpace [] = []"
| "collapseWhiteSpace (c # cs) =
     (if isWhiteSpace c then CHR '' '' # collapseWhiteSpace (dropWhile isWhiteSpace cs)
      else c # collapseWhiteSpace cs)"
  by pat_completeness auto
termination
  by (relation "measure length") (auto simp add: length_dropWhile_le le_imp_less_Suc)

subsection \<open>Recruiter view: the candidate record\<close>

record CharBreakdown =
  typed :: nat
  pasted :: nat

record CodeSubmission =
  sub_is_passed :: bool
  sub_tests_passed :: nat
  sub_tests_total :: "nat option"
  char_breakdown :: "CharBreakdown option"

datatype verdict = HIRE | NO_HIRE | REVIEW

text \<open>
  The fields of \<^verbatim>\<open>CandidateDetail\<close> that the derived values below read.  The three
  resume fields stand for \<^verbatim>\<open>resumeData.skills\<close>, \<^verbatim>\<open>resumeData.experience_zone\<close> and
  \<^verbatim>\<open>resumeData.experience_years\<close> after the page has unpacked the parsed resume.
\<close>

record CandidateDetail =
  technical_score :: real
  ai_rationale :: "string option"
  hiring_recommendation :: "verdict option"
  submissions :: "CodeSubmission list"
  resume_skills :: "string list"
  resume_experience_zone :: string
  resume_experience_years :: "real option"

subsection \<open>Resume consistency\<close>

datatype consistency = MISMATCH | ALIGNED

definition highSignalSkills :: "string list" where
  "highSignalSkills =
     [''python'', ''java'', ''javascript'', ''sql'', ''c++'', ''c#'', ''fastapi'', ''react'',
      ''node'', ''nodejs'']"

text \<open>\<^verbatim>\<open>experienceYears ?? 0\<close> reads a missing value as 0.\<close>

definition detectResumeConsistency ::
    "string list \<Rightarrow> real option \<Rightarrow> real \<Rightarrow> nat \<Rightarrow> consistency" where
  "detectResumeConsistency resumeSkills experienceYears technicalScore passedSubmissions =
     (if (case experienceYears of None \<Rightarrow> 0 | Some y \<Rightarrow> y) \<ge> 5
          \<and> (technicalScore < 60 \<or> passedSubmissions = 0)
      then MISMATCH
      else let normalizedSkills = map toLowerCase resumeSkills
           in if list_ex (\<lambda>skill. skill \<in> set highSignalSkills) normalizedSkills
                 \<and> technicalScore < 50
              then MISMATCH
              else ALIGNED)"

definition codeSubmissions :: "CandidateDetail \<Rightarrow> CodeSubmission list" where
  "codeSubmissions candidate =
     filter (\<lambda>submission. (case sub_tests_total submission of None \<Rightarrow> 0 | Some n \<Rightarrow> n) > 0)
       (submissions candidate)"

definition resumeConsistency :: "CandidateDetail \<Rightarrow> consistency" where
  "resumeConsistency candidate =
     detectResumeConsistency (resume_skills candidate) (resume_experience_years candidate)
       (technical_score candidate)
       (length (filter sub_is_passed (codeSubmissions candidate)))"

subsection \<open>Per-event integrity rationale\<close>

definition INTEGRITY_RULES :: "(string \<times> string) list" where
  "INTEGRITY_RULES =
     [(''TAB_SWITCH'', ''Tab switch detected. Frequent switches in a short window raise severity.''),
      (''COPY_PASTE_DETECTED'', ''Large paste detected in the editor (possible copy/paste).''),
      (''MULTIPLE_FACES'', ''Multiple faces detected in the camera frame.''),
      (''FACE_NOT_DETECTED'', ''Face not detected for a sustained period.''),
      (''SUSPICIOUS_BEHAVIOR'', ''Unusual motion detected in the camera feed.''),
      (''WEBCAM_DISABLED'', ''Camera disabled during assessment.''),
      (''WEB_CAM_DISABLED'', ''Camera disabled during assessment.'')]"

definition defaultRationale :: string where
  "defaultRationale = ''Integrity event recorded based on proctoring signals.''"

text \<open>
  The severity of a chart point is the upper-cased severity string of the log, so it is
  a string here and not one of three constants.
\<close>

definition getIntegrityRationale :: "string \<Rightarrow> string \<Rightarrow> string" where
  "getIntegrityRationale eventType severity =
     (let key = toUpperCase eventType;
          base = (case map_of INTEGRITY_RULES key of Some rule \<Rightarrow> rule | None \<Rightarrow> defaultRationale)
      in if key = ''TAB_SWITCH'' \<and> severity = ''HIGH''
         then base @ '' Multiple rapid switches triggered HIGH severity.''
         else if key = ''TAB_SWITCH'' \<and> (severity = ''MED'' \<or> severity = ''MEDIUM'')
         then base @ '' Repeated switching flagged as MED severity.''
         else if key = ''FACE_NOT_DETECTED'' \<and> severity = ''HIGH''
         then base @ '' Extended absence escalated to HIGH.''
         else base)"

record ChartDataPoint =
  point_time :: nat
  point_level :: nat
  point_event :: string
  point_eventType :: string
  point_severity :: string

text \<open>The reason line of the timeline tooltip (\<^verbatim>\<open>renderIntegrityTooltip\<close>).\<close>

definition tooltipReason :: "ChartDataPoint \<Rightarrow> string" where
  "tooltipReason point = getIntegrityRationale (point_eventType point) (point_severity point)"

subsection \<open>Merging the parsed strengths with the resume\<close>

record ParsedBullet =
  bullet_text :: string
  bullet_evidence :: "string option"

definition skillsBullet :: "string list \<Rightarrow> ParsedBullet" where
  "skillsBullet resumeSkills =
     \<lparr>bullet_text = ''Resume skills: '' @ join '', '' (take 6 resumeSkills) @ ''.'',
      bullet_evidence = Some ''resume.skills''\<rparr>"

definition experienceBullet :: "string \<Rightarrow> ParsedBullet" where
  "experienceBullet resumeExperience =
     (let trimmed = trim (collapseWhiteSpace resumeExperience);
          snippet = (if length trimmed > 140 then take 140 trimmed @ ''...'' else trimmed)
      in \<lparr>bullet_text = ''Experience highlight: '' @ snippet,
          bullet_evidence = Some ''resume.experience''\<rparr>)"

text \<open>
  The closure \<^verbatim>\<open>add\<close> of \<^verbatim>\<open>mergeStrengthsWithResume\<close>; its state is the pair of the
  array \<^verbatim>\<open>merged\<close> and the set \<^verbatim>\<open>normalized\<close>.
\<close>

definition add ::
    "ParsedBullet list \<times> string set \<Rightarrow> ParsedBullet \<Rightarrow> ParsedBullet list \<times> string set" where
  "add st v =
     (let key = toLowerCase (bullet_text v)
      in if key \<notin> snd st then (fst st @ [v], insert key (snd st)) else st)"

definition mergeStrengthsWithResume ::
    "ParsedBullet list \<Rightarrow> string list \<Rightarrow> string \<Rightarrow> ParsedBullet list" where
  "mergeStrengthsWithResume strengths resumeSkills resumeExperience =
     (let st0 = ([], {});
          st1 = (if length resumeSkills > 0 then add st0 (skillsBullet resumeSkills) else st0);
          st2 = (if resumeExperience \<noteq> []
                 then add st1 (experienceBullet resumeExperience) else st1);
          st3 = foldl add st2 strengths
      in take 3 (fst st3))"

text \<open>The resume-derived bullets in the order the function adds them.\<close>

definition resumeBullets :: "string list \<Rightarrow> string \<Rightarrow> ParsedBullet list" where
  "resumeBullets resumeSkills resumeExperience =
     (if resumeSkills = [] then [] else [skillsBullet resumeSkills])
     @ (if resumeExperience = [] then [] else [experienceBullet resumeExperience])"

text \<open>The loop invariant of \<^verbatim>\<open>add\<close>: the set holds the keys of the array, each once.\<close>

definition add_inv :: "ParsedBullet list \<times> string set \<Rightarrow> bool" where
  "add_inv st = (snd st = set (map (toLowerCase \<circ> bullet_text) (fst st))
                 \<and> distinct (map (toLowerCase \<circ> bullet_text) (fst st)))"

subsection \<open>The telemetry producer of the assessment page\<close>

text \<open>
  The refs of the assessment component that the proctoring handlers read and write:
  the three streak counters, whether \<^verbatim>\<open>lastFaceMetricsRef\<close> and \<^verbatim>\<open>lastFrameDataRef\<close> hold
  a value, the six time stamps of \<^verbatim>\<open>lastTelemetryRef\<close>, and \<^verbatim>\<open>tabSwitchTimesRef\<close>.
  Times are the milliseconds of \<^verbatim>\<open>Date.now()\<close>.
\<close>

record producer =
  noFaceStreak :: nat
  multiFaceStreak :: nat
  motionStreak :: nat
  lastFaceMetrics :: bool
  lastFrameData :: bool
  lastNoFace :: int
  lastMultiFace :: int
  lastCameraOff :: int
  lastPaste :: int
  lastMotion :: int
  lastTabSwitch :: int
  tabSwitchTimes :: "int list"

definition initialProducer :: producer where
  "initialProducer =
     \<lparr>noFaceStreak = 0, multiFaceStreak = 0, motionStreak = 0, lastFaceMetrics = False,
      lastFrameData = False, lastNoFace = 0, lastMultiFace = 0, lastCameraOff = 0,
      lastPaste = 0, lastMotion = 0, lastTabSwitch = 0, tabSwitchTimes = []\<rparr>"

definition NO_FACE_THRESHOLD :: nat where "NO_FACE_THRESHOLD = 2"

definition MULTI_FACE_THRESHOLD :: nat where "MULTI_FACE_THRESHOLD = 1"

definition MOTION_THRESHOLD :: nat where "MOTION_THRESHOLD = 1"

text \<open>\<^verbatim>\<open>!candidateId\<close> holds for \<^verbatim>\<open>null\<close> and for 0.\<close>

definition truthy :: "nat option \<Rightarrow> bool" where
  "truthy candidateId = (case candidateId of None \<Rightarrow> False | Some n \<Rightarrow> n \<noteq> 0)"

text \<open>
  \<^verbatim>\<open>logTelemetryEvent\<close> posts one event, or nothing without a candidate id; a failed
  request is caught and the event is lost (\<open>delivered\<close> is whether the request
  succeeded).  The result is the list of events appended to the log, stamped with the
  producer's clock at the call.
\<close>

definition logTelemetryEvent ::
    "nat option \<Rightarrow> bool \<Rightarrow> string \<Rightarrow> severity \<Rightarrow> int \<Rightarrow> IntegrityEvent list" where
  "logTelemetryEvent candidateId delivered eventType sev now =
     (if \<not> truthy candidateId then []
      else if delivered
           then [\<lparr>event_type = eventType, event_severity = sev, event_timestamp = now\<rparr>]
           else [])"

text \<open>\<^verbatim>\<open>handleVisibilityChange\<close>; \<open>hidden\<close> is \<^verbatim>\<open>document.hidden\<close>.\<close>

definition handleVisibilityChange ::
    "nat option \<Rightarrow> bool \<Rightarrow> bool \<Rightarrow> int \<Rightarrow> producer \<Rightarrow> producer \<times> IntegrityEvent list" where
  "handleVisibilityChange candidateId delivered hidden now st =
     (if hidden \<and> truthy candidateId
      then let windowMs = 60000;
               times = filter (\<lambda>timestamp. now - timestamp < windowMs) (tabSwitchTimes st) @ [now];
               sev = (if length times \<ge> 3 then HIGH else MEDIUM)
           in (st\<lparr>tabSwitchTimes := times\<rparr>,
               logTelemetryEvent candidateId delivered ''TAB_SWITCH'' sev now)
      else (st, []))"

text \<open>
  The motion block shared by the two detection loops: \<open>moved\<close> is the outcome of the
  floating-point comparison (\<^verbatim>\<open>avgDiff > 18\<close> in the frame-difference loop, one of the
  three ratios above 0.35 in the face loop).
\<close>

definition motionCheck ::
    "nat option \<Rightarrow> bool \<Rightarrow> bool \<Rightarrow> int \<Rightarrow> producer \<Rightarrow> producer \<times> IntegrityEvent list" where
  "motionCheck candidateId delivered moved now st =
     (let st1 = st\<lparr>motionStreak := (if moved then motionStreak st + 1 else 0)\<rparr>
      in if motionStreak st1 \<ge> MOTION_THRESHOLD \<and> now - lastMotion st1 > 15000
         then (st1\<lparr>lastMotion := now, motionStreak := 0\<rparr>,
               logTelemetryEvent candidateId delivered ''SUSPICIOUS_BEHAVIOR'' LOW now)
         else (st1, []))"

text \<open>One run of the frame-difference interval callback (no \<^verbatim>\<open>FaceDetector\<close>).\<close>

definition motionTick ::
    "nat option \<Rightarrow> bool \<Rightarrow> bool \<Rightarrow> int \<Rightarrow> producer \<Rightarrow> producer \<times> IntegrityEvent list" where
  "motionTick candidateId delivered moved now st =
     (let (st1, out) = (if lastFrameData st then motionCheck candidateId delivered moved now st
                        else (st, []))
      in (st1\<lparr>lastFrameData := True\<rparr>, out))"

text \<open>
  One run of the face-detection interval callback, in its three consecutive blocks:
  the streak counters by the number of faces (with the motion block when one face with a
  bounding box is seen), the no-face check and the multiple-faces check.  \<open>now1\<close> and
  \<open>now\<close> are the two readings of the clock.
\<close>

definition faceStreaks ::
    "nat option \<Rightarrow> bool \<Rightarrow> nat \<Rightarrow> bool \<Rightarrow> bool \<Rightarrow> int \<Rightarrow> producer
      \<Rightarrow> producer \<times> IntegrityEvent list" where
  "faceStreaks candidateId delivered count box moved now st =
     (if count = 0
      then (st\<lparr>noFaceStreak := noFaceStreak st + 1, multiFaceStreak := 0,
               lastFaceMetrics := False\<rparr>, [])
      else if count > 1
      then (st\<lparr>multiFaceStreak := multiFaceStreak st + 1, noFaceStreak := 0,
               lastFaceMetrics := False\<rparr>, [])
      else let st0 = st\<lparr>noFaceStreak := 0, multiFaceStreak := 0\<rparr>
           in if box
              then let (st1, out) =
                         (if lastFaceMetrics st0
                          then motionCheck candidateId delivered moved now st0
                          else (st0, []))
                   in (st1\<lparr>lastFaceMetrics := True\<rparr>, out)
              else (st0, []))"

definition noFaceCheck ::
    "nat option \<Rightarrow> bool \<Rightarrow> int \<Rightarrow> producer \<Rightarrow> producer \<times> IntegrityEvent list" where
  "noFaceCheck candidateId delivered now st =
     (if noFaceStreak st \<ge> NO_FACE_THRESHOLD \<and> now - lastNoFace st > 15000
      then (st\<lparr>lastNoFace := now, noFaceStreak := 0\<rparr>,
            logTelemetryEvent candidateId delivered ''FACE_NOT_DETECTED'' MEDIUM now)
      else (st, []))"

definition multiFaceCheck ::
    "nat option \<Rightarrow> bool \<Rightarrow> int \<Rightarrow> producer \<Rightarrow> producer \<times> IntegrityEvent list" where
  "multiFaceCheck candidateId delivered now st =
     (if multiFaceStreak st \<ge> MULTI_FACE_THRESHOLD \<and> now - lastMultiFace st > 15000
      then (st\<lparr>lastMultiFace := now, multiFaceStreak := 0\<rparr>,
            logTelemetryEvent candidateId delivered ''MULTIPLE_FACES'' HIGH now)
      else (st, []))"

definition andThen ::
    "(producer \<Rightarrow> producer \<times> IntegrityEvent list) \<Rightarrow> (producer \<Rightarrow> producer \<times> IntegrityEvent list)
      \<Rightarrow> producer \<Rightarrow> producer \<times> IntegrityEvent list" where
  "andThen first second st =
     (let (st1, out1) = first st; (st2, out2) = second st1 in (st2, out1 @ out2))"

definition faceTick ::
    "nat option \<Rightarrow> bool \<Rightarrow> nat \<Rightarrow> bool \<Rightarrow> bool \<Rightarrow> int \<Rightarrow> int \<Rightarrow> producer
      \<Rightarrow> producer \<times> IntegrityEvent list" where
  "faceTick candidateId delivered count box moved now1 now =
     andThen (faceStreaks candidateId delivered count box moved now1)
       (andThen (noFaceCheck candidateId delivered now) (multiFaceCheck candidateId delivered now))"

text \<open>\<^verbatim>\<open>track.onended\<close> of the camera stream.\<close>

definition trackEnded ::
    "nat option \<Rightarrow> bool \<Rightarrow> int \<Rightarrow> producer \<Rightarrow> producer \<times> IntegrityEvent list" where
  "trackEnded candidateId delivered now st =
     (if now - lastCameraOff st > 15000
      then (st\<lparr>lastCameraOff := now\<rparr>,
            logTelemetryEvent candidateId delivered ''WEBCAM_DISABLED'' HIGH now)
      else (st, []))"

text \<open>
  \<^verbatim>\<open>startCamera\<close> without \<^verbatim>\<open>getUserMedia\<close>, or with the camera request rejected: the
  event is logged with no cooldown test.
\<close>

definition cameraUnavailable ::
    "nat option \<Rightarrow> bool \<Rightarrow> int \<Rightarrow> producer \<Rightarrow> producer \<times> IntegrityEvent list" where
  "cameraUnavailable candidateId delivered now st =
     (st, logTelemetryEvent candidateId delivered ''WEBCAM_DISABLED'' HIGH now)"

text \<open>
  The paste part of \<^verbatim>\<open>onDidChangeModelContent\<close>; \<open>pastedChars\<close> is the number of
  characters of the change counted as pasted.
\<close>

definition pasteChange ::
    "nat option \<Rightarrow> bool \<Rightarrow> nat \<Rightarrow> int \<Rightarrow> producer \<Rightarrow> producer \<times> IntegrityEvent list" where
  "pasteChange candidateId delivered pastedChars now st =
     (if pastedChars > 0 \<and> now - lastPaste st > 15000
      then (st\<lparr>lastPaste := now\<rparr>,
            logTelemetryEvent candidateId delivered ''COPY_PASTE_DETECTED'' HIGH now)
      else (st, []))"

text \<open>
  What can happen to the producer, and an occurrence of it: the candidate id captured by
  the handler's closure, whether the log request succeeds, and the stimulus.
\<close>

datatype stimulus =
    VisibilityChange bool int
  | MotionTick bool int
  | FaceTick nat bool bool int int
  | TrackEnded int
  | CameraUnavailable int
  | PasteChange nat int

record occurrence =
  closure_candidateId :: "nat option"
  api_ok :: bool
  stimulus :: stimulus

fun step :: "producer \<Rightarrow> occurrence \<Rightarrow> producer \<times> IntegrityEvent list" where
  "step st x =
     (case stimulus x of
        VisibilityChange hidden now \<Rightarrow>
          handleVisibilityChange (closure_candidateId x) (api_ok x) hidden now st
      | MotionTick moved now \<Rightarrow> motionTick (closure_candidateId x) (api_ok x) moved now st
      | FaceTick count box moved now1 now \<Rightarrow>
          faceTick (closure_candidateId x) (api_ok x) count box moved now1 now st
      | TrackEnded now \<Rightarrow> trackEnded (closure_candidateId x) (api_ok x) now st
      | CameraUnavailable now \<Rightarrow> cameraUnavailable (closure_candidateId x) (api_ok x) now st
      | PasteChange pastedChars now \<Rightarrow>
          pasteChange (closure_candidateId x) (api_ok x) pastedChars now st)"

fun run :: "producer \<Rightarrow> occurrence list \<Rightarrow> producer \<times> IntegrityEvent list" where
  "run st [] = (st, [])"
| "run st (x # xs) =
     (let (st1, out1) = step st x; (st2, out2) = run st1 xs in (st2, out1 @ out2))"

text \<open>The events appended to the log by a session, from mount on.\<close>

definition producerLog :: "occurrence list \<Rightarrow> IntegrityEvent list" where
  "producerLog xs = snd (run initialProducer xs)"

text \<open>
  The times of the logged events of one type, and the debounce property: any two of them
  are more than 15 seconds apart, the later after the earlier.
\<close>

definition timesOf :: "string \<Rightarrow> IntegrityEvent list \<Rightarrow> int list" where
  "timesOf ty events = map event_timestamp (filter (\<lambda>e. event_type e = ty) events)"

definition apart :: "int \<Rightarrow> int \<Rightarrow> bool" where
  "apart earlier later = (later - earlier > 15000)"

definition debounced :: "string \<Rightarrow> IntegrityEvent list \<Rightarrow> bool" where
  "debounced ty events = sorted_wrt apart (timesOf ty events)"

text \<open>A tab switch (the page becomes hidden) seen by a handler that knows the candidate.\<close>

definition tabSwitch :: "nat \<Rightarrow> int \<Rightarrow> occurrence" where
  "tabSwitch cid now =
     \<lparr>closure_candidateId = Some cid, api_ok = True, stimulus = VisibilityChange True now\<rparr>"




text \<open>
  What one step may do to the events of a type with cooldown field \<open>cooldown\<close>:
  log nothing and not lower the field, or log one event more than 15 seconds after the
  field and set the field to its time.
\<close>

definition step_ok ::
    "string \<Rightarrow> (producer \<Rightarrow> int) \<Rightarrow> producer \<Rightarrow> producer \<times> IntegrityEvent list \<Rightarrow> bool" where
  "step_ok ty cooldown st r =
     ((timesOf ty (snd r) = [] \<and> cooldown st \<le> cooldown (fst r))
      \<or> (\<exists>now. timesOf ty (snd r) = [now] \<and> now - cooldown st > 15000
            \<and> cooldown (fst r) = now))"

definition quiet ::
    "string \<Rightarrow> (producer \<Rightarrow> int) \<Rightarrow> producer \<Rightarrow> producer \<times> IntegrityEvent list \<Rightarrow> bool" where
  "quiet ty cooldown st r = (timesOf ty (snd r) = [] \<and> cooldown (fst r) = cooldown st)"

definition isCameraUnavailable :: "occurrence \<Rightarrow> bool" where
  "isCameraUnavailable x = (case stimulus x of CameraUnavailable now \<Rightarrow> True | _ \<Rightarrow> False)"

definition isTrackEnded :: "occurrence \<Rightarrow> bool" where
  "isTrackEnded x = (case stimulus x of TrackEnded now \<Rightarrow> True | _ \<Rightarrow> False)"

text \<open>
  The camera effect depends on \<^verbatim>\<open>[candidateId, logTelemetryEvent]\<close> and returns at once
  without a candidate id, so one mount calls \<^verbatim>\<open>startCamera\<close> once.  Its two calls of the
  logger without a cooldown test are the early return without \<^verbatim>\<open>getUserMedia\<close> and the
  \<^verbatim>\<open>catch\<close> block; \<^verbatim>\<open>track.onended\<close> is assigned by the last statement of the \<^verbatim>\<open>try\<close>
  block.  So in the sessions of one mount the camera start fails at most once, and a
  session in which it fails has no handler for the end of a track.
\<close>

definition oneCameraStart :: "occurrence list \<Rightarrow> bool" where
  "oneCameraStart xs =
     (filter isCameraUnavailable xs = []
      \<or> (length (filter isCameraUnavailable xs) = 1 \<and> filter isTrackEnded xs = []))"

text \<open>The event types that the handlers of the page pass to \<^verbatim>\<open>logTelemetryEvent\<close>.\<close>

definition producerTypes :: "string list" where
  "producerTypes =
     [''TAB_SWITCH'', ''SUSPICIOUS_BEHAVIOR'', ''FACE_NOT_DETECTED'', ''MULTIPLE_FACES'',
      ''WEBCAM_DISABLED'', ''COPY_PASTE_DETECTED'']"

definition emits :: "producer \<times> IntegrityEvent list \<Rightarrow> bool" where
  "emits r = (\<forall>e \<in> set (snd r). event_type e \<in> set producerTypes)"

text \<open>
  A session of the face-detection loop: two faces are seen at 20.0 s, 21.2 s and 40.0 s,
  and the camera track ends at 41.0 s.
\<close>

definition faceSession :: "occurrence list" where
  "faceSession =
     [\<lparr>closure_candidateId = Some 7, api_ok = True, stimulus = FaceTick 2 False False 20000 20000\<rparr>,
      \<lparr>closure_candidateId = Some 7, api_ok = True, stimulus = FaceTick 2 False False 21200 21200\<rparr>,
      \<lparr>closure_candidateId = Some 7, api_ok = True, stimulus = FaceTick 2 False False 40000 40000\<rparr>,
      \<lparr>closure_candidateId = Some 7, api_ok = True, stimulus = TrackEnded 41000\<rparr>]"



subsection \<open>Regular-expression matching as the rationale parser uses it\<close>

text \<open>
  \<^verbatim>\<open>Canonicalize\<close> of a regular expression with the \<^verbatim>\<open>i\<close> flag and no \<^verbatim>\<open>u\<close> flag: two
  code units match when their canonical forms are equal.  Below U+0100 the canonical form
  is the capital of a letter whose capital lies in the same range, and the sharp s is its
  own canonical form.  The canonical forms of the micro sign and of y with diaeresis lie
  above U+00FF and belong to no other character below U+0100, so leaving the two unchanged
  keeps the equality of canonical forms as it is.
\<close>

definition canonicalize :: "char \<Rightarrow> char" where
  "canonicalize c =
     (let n = charCode c
      in if (97 \<le> n \<and> n \<le> 122) \<or> (224 \<le> n \<and> n \<le> 254 \<and> n \<noteq> 247)
         then fromCharCode (n - 32) else c)"

text \<open>A literal pattern under the \<^verbatim>\<open>i\<close> flag, matched at the start of the input: the rest.\<close>

fun matchLiteral :: "string \<Rightarrow> string \<Rightarrow> string option" where
  "matchLiteral [] s = Some s"
| "matchLiteral (p # ps) [] = None"
| "matchLiteral (p # ps) (c # cs) =
     (if canonicalize p = canonicalize c then matchLiteral ps cs else None)"

text \<open>
  \<^verbatim>\<open>String.prototype.match\<close> and \<^verbatim>\<open>replace\<close> with a pattern without the \<^verbatim>\<open>g\<close> flag
  try the positions from left to right, the end of the input included, and stop at the
  first where the pattern matches: the text before the match and the matcher's result.
\<close>

fun search :: "(string \<Rightarrow> 'a option) \<Rightarrow> string \<Rightarrow> (string \<times> 'a) option" where
  "search m [] = (case m [] of Some r \<Rightarrow> Some ([], r) | None \<Rightarrow> None)"
| "search m (c # cs) =
     (case m (c # cs) of
        Some r \<Rightarrow> Some ([], r)
      | None \<Rightarrow> (case search m cs of Some (pre, r) \<Rightarrow> Some (c # pre, r) | None \<Rightarrow> None))"

text \<open>The class \<^verbatim>\<open>[A-Z ]\<close> under the \<^verbatim>\<open>i\<close> flag: the ASCII letters and the space.\<close>

definition isSectionNameChar :: "char \<Rightarrow> bool" where
  "isSectionNameChar c =
     (let n = charCode c in (65 \<le> n \<and> n \<le> 90) \<or> (97 \<le> n \<and> n \<le> 122) \<or> n = 32)"

text \<open>The lookahead \<^verbatim>\<open>\n\[[A-Z ]+\]:\<close> at the start of the input.\<close>

definition atSectionHeader :: "string \<Rightarrow> bool" where
  "atSectionHeader s =
     (case s of
        c1 # c2 # rest \<Rightarrow>
          c1 = CHR 0x0A \<and> c2 = CHR ''[''
          \<and> takeWhile isSectionNameChar rest \<noteq> []
          \<and> matchLiteral '']:'' (dropWhile isSectionNameChar rest) \<noteq> None
      | _ \<Rightarrow> False)"

text \<open>
  The capture \<^verbatim>\<open>([\s\S]*?)(?=\n\[[A-Z ]+\]:|$)\<close>: the shortest prefix that is followed by a
  section header or by the end of the input.
\<close>

fun captureSection :: "string \<Rightarrow> string" where
  "captureSection [] = []"
| "captureSection (c # cs) = (if atSectionHeader (c # cs) then [] else c # captureSection cs)"

text \<open>
  \<^verbatim>\<open>getSection\<close>, for a label of letters (the parser calls it with \<open>STRENGTHS\<close>,
  \<open>RISKS\<close> and \<open>SUMMARY\<close>): after the first header \<^verbatim>\<open>[label]:\<close>, \<^verbatim>\<open>\s*\<close> takes all
  the white space, the capture follows, and the result is trimmed.  The capture can always
  run to the end of the input, so the greedy \<^verbatim>\<open>\s*\<close> never gives white space back.
\<close>

definition matchSection :: "string \<Rightarrow> string \<Rightarrow> string option" where
  "matchSection label s =
     (case matchLiteral (''['' @ label @ '']:'') s of
        None \<Rightarrow> None
      | Some rest \<Rightarrow> Some (captureSection (dropWhile isWhiteSpace rest)))"

definition getSection :: "string \<Rightarrow> string \<Rightarrow> string" where
  "getSection text label =
     (case search (matchSection label) text of
        Some (pre, captured) \<Rightarrow> trim captured
      | None \<Rightarrow> [])"

text \<open>\<^verbatim>\<open>section.split('\n')\<close>.\<close>

fun splitLines :: "string \<Rightarrow> string list" where
  "splitLines [] = [[]]"
| "splitLines (c # cs) =
     (if c = CHR 0x0A then [] # splitLines cs
      else (case splitLines cs of l # ls \<Rightarrow> (c # l) # ls | [] \<Rightarrow> [[c]]))"

text \<open>
  \<^verbatim>\<open>line.replace(/^[\\-\<dots>]\\s*/, '')\<close> as the source file has it: the bracket holds the
  range from the backslash (U+005C) to U+00E2 and the two characters U+20AC and U+00A2; it
  is followed by a backslash and by any number of letters \<open>s\<close>.  U+20AC is not a
  \<^typ>\<open>char\<close>, and U+00A2 lies in the range.
\<close>

definition inMarkerClass :: "char \<Rightarrow> bool" where
  "inMarkerClass c = (92 \<le> charCode c \<and> charCode c \<le> 226)"

definition stripMarker :: "string \<Rightarrow> string" where
  "stripMarker line =
     (case line of
        c # b # rest \<Rightarrow>
          if inMarkerClass c \<and> b = CHR 0x5C then dropWhile (\<lambda>x. x = CHR ''s'') rest else line
      | _ \<Rightarrow> line)"

text \<open>The class \<^verbatim>\<open>[A-Za-z0-9._-]\<close>.\<close>

definition isTagChar :: "char \<Rightarrow> bool" where
  "isTagChar c =
     (let n = charCode c
      in (65 \<le> n \<and> n \<le> 90) \<or> (97 \<le> n \<and> n \<le> 122) \<or> (48 \<le> n \<and> n \<le> 57)
         \<or> c = CHR ''.'' \<or> c = CHR ''_'' \<or> c = CHR ''-'')"

text \<open>
  \<^verbatim>\<open>/EVIDENCE:\s*([A-Za-z0-9._-]+)/i\<close> at the start of the input: the tag and the rest.
  White space is no tag character, so giving back white space cannot help the match.
\<close>

definition matchEvidence :: "string \<Rightarrow> (string \<times> string) option" where
  "matchEvidence s =
     (case matchLiteral ''EVIDENCE:'' s of
        None \<Rightarrow> None
      | Some rest \<Rightarrow>
          (let r = dropWhile isWhiteSpace rest
           in if takeWhile isTagChar r = [] then None
              else Some (takeWhile isTagChar r, dropWhile isTagChar r)))"

text \<open>\<^verbatim>\<open>s.replace(/\s+$/, '')\<close>.\<close>

definition dropTrailingWhiteSpace :: "string \<Rightarrow> string" where
  "dropTrailingWhiteSpace s = rev (dropWhile isWhiteSpace (rev s))"

text \<open>The body of the last \<^verbatim>\<open>map\<close> of \<^verbatim>\<open>parseBullets\<close>.\<close>

definition parseBulletLine :: "string \<Rightarrow> ParsedBullet" where
  "parseBulletLine line =
     (let evidenceMatch = search matchEvidence line;
          evidence = (case evidenceMatch of Some (pre, tag, rest) \<Rightarrow> Some tag | None \<Rightarrow> None);
          removed = (case evidenceMatch of Some (pre, tag, rest) \<Rightarrow> pre @ rest | None \<Rightarrow> line)
      in \<lparr>bullet_text = trim (dropTrailingWhiteSpace removed), bullet_evidence = evidence\<rparr>)"

text \<open>
  \<^verbatim>\<open>parseBullets\<close>: the lines of the section, each with the marker pattern removed and
  trimmed, the empty ones dropped, and each parsed for its evidence tag.
\<close>

definition bulletLines :: "string \<Rightarrow> string list" where
  "bulletLines section = filter (\<lambda>line. line \<noteq> []) (map (\<lambda>line. trim (stripMarker line)) (splitLines section))"

definition parseBullets :: "string \<Rightarrow> ParsedBullet list" where
  "parseBullets section = map parseBulletLine (bulletLines section)"

text \<open>\<^verbatim>\<open>/\[VERDICT\]:\s*(HIRE|NO_HIRE|REVIEW)/i\<close> at the start of the input.\<close>

definition matchVerdict :: "string \<Rightarrow> verdict option" where
  "matchVerdict s =
     (case matchLiteral ''[VERDICT]:'' s of
        None \<Rightarrow> None
      | Some rest \<Rightarrow>
          (let r = dropWhile isWhiteSpace rest
           in if matchLiteral ''HIRE'' r \<noteq> None then Some HIRE
              else if matchLiteral ''NO_HIRE'' r \<noteq> None then Some NO_HIRE
              else if matchLiteral ''REVIEW'' r \<noteq> None then Some REVIEW
              else None))"

text \<open>
  An element of the \<open>strengths\<close> and \<open>risks\<close> arrays: a bullet object, or the bare string
  that the branch for a missing rationale puts there.
\<close>

datatype rationale_item = Plain string | Bullet ParsedBullet

record ParsedRationale =
  verdict :: "verdict option"
  strengths :: "rationale_item list"
  risks :: "rationale_item list"
  summary :: string

text \<open>
  \<^verbatim>\<open>parseAIReport\<close>.  The test \<^verbatim>\<open>!text\<close> holds for \<^verbatim>\<open>null\<close> and for the empty
  string.
\<close>

definition parseAIReport :: "string option \<Rightarrow> ParsedRationale" where
  "parseAIReport text =
     (case text of
        None \<Rightarrow>
          \<lparr>verdict = None, strengths = [Plain ''Assessment data pending''],
           risks = [Plain ''No analysis available yet''],
           summary = ''Awaiting assessment completion for AI analysis.''\<rparr>
      | Some t \<Rightarrow>
          if t = [] then
            \<lparr>verdict = None, strengths = [Plain ''Assessment data pending''],
             risks = [Plain ''No analysis available yet''],
             summary = ''Awaiting assessment completion for AI analysis.''\<rparr>
          else
            (let verdictMatch = search matchVerdict t;
                 v = (case verdictMatch of Some (pre, w) \<Rightarrow> Some w | None \<Rightarrow> None);
                 strengths = parseBullets (getSection t ''STRENGTHS'');
                 risks = parseBullets (getSection t ''RISKS'');
                 summary = getSection t ''SUMMARY''
             in \<lparr>verdict = v,
                 strengths = (if strengths \<noteq> [] then map Bullet strengths
                              else [Bullet \<lparr>bullet_text = ''Technical assessment completed'',
                                            bullet_evidence = None\<rparr>]),
                 risks = (if risks \<noteq> [] then map Bullet risks
                          else [Bullet \<lparr>bullet_text = ''No major risks highlighted'',
                                        bullet_evidence = None\<rparr>]),
                 summary = (if summary \<noteq> [] then summary
                            else ''Awaiting assessment completion for AI analysis.'')\<rparr>))"

text \<open>
  The header \<^verbatim>\<open>[label]:\<close> occurs somewhere in the text, in any letter case.
\<close>

definition hasHeader :: "string \<Rightarrow> string \<Rightarrow> bool" where
  "hasHeader label text =
     sublist (map canonicalize (''['' @ label @ '']:'')) (map canonicalize text)"

text \<open>The report for a missing or empty rationale.\<close>

definition pendingRationale :: ParsedRationale where
  "pendingRationale =
     \<lparr>verdict = None, strengths = [Plain ''Assessment data pending''],
      risks = [Plain ''No analysis available yet''],
      summary = ''Awaiting assessment completion for AI analysis.''\<rparr>"

text \<open>A citation \<^verbatim>\<open>EVIDENCE: <tag>\<close> occurs somewhere in the string.\<close>

definition containsCitation :: "string \<Rightarrow> bool" where
  "containsCitation s = (search matchEvidence s \<noteq> None)"

subsection \<open>Originality\<close>

text \<open>
  The \<^verbatim>\<open>reduce\<close> that builds \<^verbatim>\<open>originalityBreakdown\<close>: a submission without a
  breakdown adds \<open>{typed: 0, pasted: 0}\<close>.  The counts are integers below \<open>2\<^sup>5\<^sup>3\<close>, which
  JavaScript numbers hold and add exactly.
\<close>

definition addBreakdown :: "CharBreakdown \<Rightarrow> CodeSubmission \<Rightarrow> CharBreakdown" where
  "addBreakdown acc submission =
     (let breakdown = (case char_breakdown submission of
                         None \<Rightarrow> \<lparr>typed = 0, pasted = 0\<rparr> | Some b \<Rightarrow> b)
      in \<lparr>typed = typed acc + typed breakdown, pasted = pasted acc + pasted breakdown\<rparr>)"

definition originalityBreakdown :: "CandidateDetail \<Rightarrow> CharBreakdown" where
  "originalityBreakdown candidate =
     foldl addBreakdown \<lparr>typed = 0, pasted = 0\<rparr> (submissions candidate)"

text \<open>
  JavaScript numbers are IEEE 754 binary64 values, and \<open>/\<close> and \<open>*\<close> round the exact
  result to the nearest of them, ties to the even significand.  \<open>fl\<close> is that rounding
  on the rationals, for results in the normal range (no overflow and no underflow, which
  quotients of counts and their hundredfold cannot reach): \<open>ilog2 x\<close> is the exponent
  \<open>e\<close> with \<open>2\<^sup>e \<le> x < 2\<^sup>e\<^sup>+\<^sup>1\<close>, and the result is the multiple of \<open>2\<^sup>e\<^sup>-\<^sup>5\<^sup>2\<close> nearest to
  \<open>x\<close>.
\<close>

definition ilog2 :: "rat \<Rightarrow> int" where
  "ilog2 x =
     (let (a, b) = quotient_of x; e0 = bitlen a - bitlen b
      in if 2 powi e0 \<le> x then e0 else e0 - 1)"

definition roundHalfEven :: "rat \<Rightarrow> int" where
  "roundHalfEven q =
     (let f = \<lfloor>q\<rfloor>; d = q - of_int f
      in if d < 1 / 2 then f else if 1 / 2 < d then f + 1 else if even f then f else f + 1)"

definition fl :: "rat \<Rightarrow> rat" where
  "fl x =
     (if x = 0 then 0
      else let u = 2 powi (ilog2 \<bar>x\<bar> - 52)
           in sgn x * of_int (roundHalfEven (\<bar>x\<bar> / u)) * u)"

text \<open>\<^verbatim>\<open>Math.round\<close>: the nearest integer, a tie going up.\<close>

definition MathRound :: "rat \<Rightarrow> int" where
  "MathRound x = \<lfloor>x + 1 / 2\<rfloor>"

text \<open>The two percentages of \<^verbatim>\<open>OriginalityChart\<close>.\<close>

definition typedPercent :: "CharBreakdown \<Rightarrow> int" where
  "typedPercent charBreakdown =
     (let total = typed charBreakdown + pasted charBreakdown
      in if total > 0
         then MathRound (fl (fl (of_nat (typed charBreakdown) / of_nat total) * 100))
         else 0)"

definition pastedPercent :: "CharBreakdown \<Rightarrow> int" where
  "pastedPercent charBreakdown =
     (let total = typed charBreakdown + pasted charBreakdown
      in if total > 0 then 100 - typedPercent charBreakdown else 0)"

text \<open>
  The exact percentage \<open>100 \<sqdot> typed / total\<close> lies halfway between two integers
  exactly when \<open>2 \<sqdot> total\<close> divides \<open>200 \<sqdot> typed + total\<close>.
\<close>

definition halfway :: "nat \<Rightarrow> nat \<Rightarrow> bool" where
  "halfway typedChars totalChars = (2 * totalChars dvd 200 * typedChars + totalChars)"

subsection \<open>The strengths shown on the candidate page\<close>

datatype js_error = TypeError

text \<open>
  \<^verbatim>\<open>strengths.forEach(add)\<close> evaluates \<^verbatim>\<open>value.text.toLowerCase()\<close> for every element.
  A bullet object gives its text; a bare string has no \<^verbatim>\<open>text\<close> property, the read gives
  \<^verbatim>\<open>undefined\<close>, and the call on it raises a TypeError.
\<close>

fun asBullets :: "rationale_item list \<Rightarrow> js_error + ParsedBullet list" where
  "asBullets [] = Inr []"
| "asBullets (Plain s # items) = Inl TypeError"
| "asBullets (Bullet b # items) =
     (case asBullets items of Inl e \<Rightarrow> Inl e | Inr bs \<Rightarrow> Inr (b # bs))"

text \<open>
  \<^verbatim>\<open>mergedStrengths\<close> of the page: the strengths of the parsed rationale of the candidate,
  merged with the resume.
\<close>

definition mergedStrengths :: "CandidateDetail \<Rightarrow> js_error + ParsedBullet list" where
  "mergedStrengths candidate =
     (case asBullets (strengths (parseAIReport (ai_rationale candidate))) of
        Inl e \<Rightarrow> Inl e
      | Inr bs \<Rightarrow>
          Inr (mergeStrengthsWithResume bs (resume_skills candidate)
                 (resume_experience_zone candidate)))"

section \<open>Theorems\<close>

subsection \<open>Integrity score and execution report\<close>

lemma foldl_deduct: "foldl deduct s events = s - sum_list (map (weight \<circ> event_severity) events)"
  by (induction events arbitrary: s) (simp_all add: deduct_def)

text \<open>
  Claim C2.  For every ordered list of integrity events the IntegrityScore is
  \<open>max 0 (100 - \<Sum> weight)\<close> with weights LOW 2, MEDIUM 5, HIGH 10; a list whose
  severities are LOW, LOW, HIGH scores 86.
\<close>

theorem integrity_score_formula:
  "ComputeIntegrityScore events = max 0 (100 - sum_list (map (weight \<circ> event_severity) events))
   \<and> weight LOW = 2 \<and> weight MEDIUM = 5 \<and> weight HIGH = 10
   \<and> (map event_severity events = [LOW, LOW, HIGH] \<longrightarrow> ComputeIntegrityScore events = 86)"
proof -
  have closed: "ComputeIntegrityScore events
      = max 0 (100 - sum_list (map (weight \<circ> event_severity) events))"
    by (simp add: ComputeIntegrityScore_def foldl_deduct)
  have scenario: "ComputeIntegrityScore events = 86"
    if "map event_severity events = [LOW, LOW, HIGH]"
  proof -
    have "sum_list (map (weight \<circ> event_severity) events)
        = sum_list (map weight (map event_severity events))"
      by simp
    also have "\<dots> = 14" unfolding that by simp
    finally show ?thesis using closed by simp
  qed
  show ?thesis using closed scenario by simp
qed

theorem integrity_score_formula_witness:
  "ComputeIntegrityScore
     [\<lparr>event_type = ''TAB_SWITCH'', event_severity = LOW, event_timestamp = 1000\<rparr>,
      \<lparr>event_type = ''SUSPICIOUS_BEHAVIOR'', event_severity = LOW, event_timestamp = 20000\<rparr>,
      \<lparr>event_type = ''MULTIPLE_FACES'', event_severity = HIGH, event_timestamp = 45000\<rparr>] = 86"
  using integrity_score_formula
    [of "[\<lparr>event_type = ''TAB_SWITCH'', event_severity = LOW, event_timestamp = 1000\<rparr>,
          \<lparr>event_type = ''SUSPICIOUS_BEHAVIOR'', event_severity = LOW, event_timestamp = 20000\<rparr>,
          \<lparr>event_type = ''MULTIPLE_FACES'', event_severity = HIGH, event_timestamp = 45000\<rparr>]"]
  by simp

text \<open>
  Claim C1.  Every ExecutionReport produced by running a test suite has
  \<open>0 \<le> tests_passed \<le> tests_total\<close>, and \<open>is_passed\<close> holds exactly when all tests
  passed and there is at least one test.  The report the client substitutes for a failed
  request satisfies the same invariant.
\<close>

theorem execution_report_invariant:
  "report_invariant (RunTestSuite mock compiles execute code tcs) \<and> report_invariant errorResult"
  by (simp add: report_invariant_def RunTestSuite_def Let_def errorResult_def)

theorem execution_report_invariant_witness:
  "tests_passed (RunTestSuite False (\<lambda>c. True)
       (\<lambda>c tc. (if tc = (2::nat) then passed else failed, 5)) ''code'' [2, 3, 2]) = 2
   \<and> tests_total (RunTestSuite False (\<lambda>c. True)
       (\<lambda>c tc. (if tc = (2::nat) then passed else failed, 5)) ''code'' [2, 3, 2]) = 3
   \<and> \<not> is_passed (RunTestSuite False (\<lambda>c. True)
       (\<lambda>c tc. (if tc = (2::nat) then passed else failed, 5)) ''code'' [2, 3, 2])"
  using execution_report_invariant
    [of False "\<lambda>c. True" "\<lambda>c tc. (if tc = (2::nat) then passed else failed, 5)" "''code''" "[2, 3, 2]"]
  by (simp add: report_invariant_def RunTestSuite_def collectResults_def Let_def)

subsection \<open>Resume consistency\<close>

text \<open>
  Claim C3, as stated, makes five years of experience with a failing score ALIGNED (five
  does not exceed five, and no skill is listed).  The function returns MISMATCH there:
  its test is \<open>experienceYears \<ge> 5\<close>.
\<close>

theorem resume_consistency_exceeds_counterexample:
  "detectResumeConsistency [] (Some 5) 0 0 = MISMATCH
   \<and> \<not> (5 < (5::real))
   \<and> set (map toLowerCase []) \<inter> set highSignalSkills = {}"
  by (simp add: detectResumeConsistency_def)

text \<open>
  Claim C3, amended.  \<open>detectResumeConsistency\<close> returns MISMATCH exactly when the stated
  experience (a missing value counting as 0) is at least 5 years while the technical score
  is below 60 or no submission passed, or when a resume skill, lower-cased, is one of the
  high-signal skills while the technical score is below 50; in every other case it returns
  ALIGNED.  The flag shown for a candidate does not change when the rationale text or the
  hiring recommendation (the sources of the displayed verdict) change.
\<close>

theorem resume_consistency_rule:
  "(detectResumeConsistency skills years score npassed = MISMATCH \<longleftrightarrow>
      ((case years of None \<Rightarrow> 0 | Some y \<Rightarrow> y) \<ge> 5 \<and> (score < 60 \<or> npassed = 0))
      \<or> ((\<exists>skill \<in> set skills. toLowerCase skill \<in> set highSignalSkills) \<and> score < 50))
   \<and> (detectResumeConsistency skills years score npassed = ALIGNED \<longleftrightarrow>
      \<not> (((case years of None \<Rightarrow> 0 | Some y \<Rightarrow> y) \<ge> 5 \<and> (score < 60 \<or> npassed = 0))
      \<or> ((\<exists>skill \<in> set skills. toLowerCase skill \<in> set highSignalSkills) \<and> score < 50)))
   \<and> resumeConsistency (candidate\<lparr>ai_rationale := r, hiring_recommendation := h\<rparr>)
       = resumeConsistency candidate"
  by (auto simp add: detectResumeConsistency_def Let_def list_ex_iff
      resumeConsistency_def codeSubmissions_def)

theorem resume_consistency_rule_witness:
  "detectResumeConsistency [''Go'', ''React''] (Some 2) 40 1 = MISMATCH
   \<and> detectResumeConsistency [''Go'', ''React''] (Some 2) 55 1 = ALIGNED
   \<and> detectResumeConsistency [] None 10 0 = ALIGNED"
proof -
  have react: "toLowerCase ''React'' \<in> set highSignalSkills" by code_simp
  have go: "toLowerCase ''Go'' \<notin> set highSignalSkills" by code_simp
  have a: "detectResumeConsistency [''Go'', ''React''] (Some 2) 40 1 = MISMATCH"
    using resume_consistency_rule [of "[''Go'', ''React'']" "Some 2" 40 1 undefined undefined undefined]
      react by simp
  have b: "detectResumeConsistency [''Go'', ''React''] (Some 2) 55 1 = ALIGNED"
    using resume_consistency_rule [of "[''Go'', ''React'']" "Some 2" 55 1 undefined undefined undefined]
    by simp
  have c: "detectResumeConsistency [] None 10 0 = ALIGNED"
    using resume_consistency_rule [of "[]" None 10 0 undefined undefined undefined]
    by simp
  show ?thesis using a b c by simp
qed

subsection \<open>Per-event integrity rationale\<close>

text \<open>
  Claim C8.  Two calls of \<open>getIntegrityRationale\<close> with the same event type and the same
  severity return the same string; two chart points with the same event type and severity
  get the same tooltip reason whatever their time, level and label; and an event type that
  is not a key of the rule table gets the fixed default string.
\<close>

theorem integrity_rationale_deterministic:
  "(eventType1 = eventType2 \<and> severity1 = severity2 \<longrightarrow>
      getIntegrityRationale eventType1 severity1 = getIntegrityRationale eventType2 severity2)
   \<and> (point_eventType p1 = point_eventType p2 \<and> point_severity p1 = point_severity p2 \<longrightarrow>
      tooltipReason p1 = tooltipReason p2)
   \<and> (toUpperCase eventType \<notin> fst ` set INTEGRITY_RULES \<longrightarrow>
      getIntegrityRationale eventType severity = defaultRationale)"
proof -
  have "getIntegrityRationale eventType severity = defaultRationale"
    if unknown: "toUpperCase eventType \<notin> fst ` set INTEGRITY_RULES"
  proof -
    have none: "map_of INTEGRITY_RULES (toUpperCase eventType) = None"
      using unknown by (simp add: map_of_eq_None_iff)
    have "toUpperCase eventType \<noteq> ''TAB_SWITCH''"
      and "toUpperCase eventType \<noteq> ''FACE_NOT_DETECTED''"
      using unknown by (auto simp add: INTEGRITY_RULES_def)
    then show ?thesis
      by (simp add: getIntegrityRationale_def Let_def none)
  qed
  then show ?thesis by (simp add: tooltipReason_def)
qed

theorem integrity_rationale_deterministic_witness:
  "tooltipReason \<lparr>point_time = 12, point_level = 3, point_event = ''TAB SWITCH'',
       point_eventType = ''TAB_SWITCH'', point_severity = ''HIGH''\<rparr>
     = tooltipReason \<lparr>point_time = 950, point_level = 1, point_event = ''Event'',
       point_eventType = ''TAB_SWITCH'', point_severity = ''HIGH''\<rparr>
   \<and> getIntegrityRationale ''window_blur'' ''LOW''
     = ''Integrity event recorded based on proctoring signals.''"
proof -
  have unknown: "toUpperCase ''window_blur'' \<notin> fst ` set INTEGRITY_RULES" by code_simp
  show ?thesis
    using integrity_rationale_deterministic
      [of undefined undefined undefined undefined
          "\<lparr>point_time = 12, point_level = 3, point_event = ''TAB SWITCH'',
            point_eventType = ''TAB_SWITCH'', point_severity = ''HIGH''\<rparr>"
          "\<lparr>point_time = 950, point_level = 1, point_event = ''Event'',
            point_eventType = ''TAB_SWITCH'', point_severity = ''HIGH''\<rparr>"
          "''window_blur''" "''LOW''"]
      unknown
    by (simp add: defaultRationale_def)
qed

subsection \<open>Merged strengths\<close>

lemma add_inv_add: "add_inv st \<Longrightarrow> add_inv (add st v)"
  by (auto simp add: add_inv_def add_def Let_def)

lemma add_inv_foldl: "add_inv st \<Longrightarrow> add_inv (foldl add st vs)"
  by (induction vs arbitrary: st) (simp_all add: add_inv_add)

lemma add_extends: "\<exists>rest. fst (add st v) = fst st @ rest \<and> subseq rest [v]"
  by (auto simp add: add_def Let_def)

lemma foldl_add_extends: "\<exists>rest. fst (foldl add st vs) = fst st @ rest \<and> subseq rest vs"
proof (induction vs arbitrary: st)
  case Nil
  then show ?case by simp
next
  case (Cons v vs)
  obtain r1 where r1: "fst (add st v) = fst st @ r1" "subseq r1 [v]"
    using add_extends by blast
  obtain r2 where r2: "fst (foldl add (add st v) vs) = fst (add st v) @ r2" "subseq r2 vs"
    using Cons.IH by blast
  have "fst (foldl add st (v # vs)) = fst st @ (r1 @ r2)" using r1 r2 by simp
  moreover have "subseq (r1 @ r2) ([v] @ vs)"
    using r1(2) r2(2) by (rule list_emb_append_mono)
  ultimately show ?case by auto
qed

lemma toLowerCase_Cons: "toLowerCase (c # cs) = toLowerCaseChar c # toLowerCase cs"
  by (simp add: toLowerCase_def)

lemma resume_keys_differ:
  "toLowerCase (bullet_text (skillsBullet ks)) \<noteq> toLowerCase (bullet_text (experienceBullet e))"
proof -
  have "toLowerCaseChar CHR ''R'' \<noteq> toLowerCaseChar CHR ''E''" by code_simp
  then show ?thesis
    by (simp add: skillsBullet_def experienceBullet_def Let_def toLowerCase_Cons)
qed

lemma resume_prefix_state:
  "(let st0 = ([], {});
        st1 = (if length ks > 0 then add st0 (skillsBullet ks) else st0);
        st2 = (if e \<noteq> [] then add st1 (experienceBullet e) else st1)
    in fst st2 = resumeBullets ks e \<and> add_inv st2)"
  using resume_keys_differ [of ks e]
  by (auto simp add: Let_def add_def add_inv_def resumeBullets_def)

text \<open>
  Claim C10.  The merged strengths are at most 3 bullets, no two of them have texts that
  are equal after lower-casing, and the list is the first three of: the skills bullet (when
  the resume lists skills), then the experience bullet (when the resume has an experience
  text), then AI-parsed strengths in their order.
\<close>

theorem merged_strengths_shape:
  "length (mergeStrengthsWithResume parsed ks e) \<le> 3
   \<and> distinct (map (toLowerCase \<circ> bullet_text) (mergeStrengthsWithResume parsed ks e))
   \<and> (\<exists>rest. subseq rest parsed
        \<and> mergeStrengthsWithResume parsed ks e = take 3 (resumeBullets ks e @ rest))"
proof -
  define st2 where "st2 = (let st0 = ([], {});
        st1 = (if length ks > 0 then add st0 (skillsBullet ks) else st0)
     in (if e \<noteq> [] then add st1 (experienceBullet e) else st1))"
  have pre: "fst st2 = resumeBullets ks e" and inv2: "add_inv st2"
    using resume_prefix_state [of ks e] by (simp_all add: st2_def Let_def)
  have m: "mergeStrengthsWithResume parsed ks e = take 3 (fst (foldl add st2 parsed))"
    by (simp add: mergeStrengthsWithResume_def st2_def Let_def)
  have "add_inv (foldl add st2 parsed)" using inv2 by (rule add_inv_foldl)
  then have d: "distinct (map (toLowerCase \<circ> bullet_text) (fst (foldl add st2 parsed)))"
    by (simp add: add_inv_def)
  have "distinct (take 3 (map (toLowerCase \<circ> bullet_text) (fst (foldl add st2 parsed))))"
    using d by (rule distinct_take)
  then have d3: "distinct (map (toLowerCase \<circ> bullet_text) (mergeStrengthsWithResume parsed ks e))"
    by (simp add: m take_map)
  obtain rest where rest: "fst (foldl add st2 parsed) = fst st2 @ rest" "subseq rest parsed"
    using foldl_add_extends by blast
  have "mergeStrengthsWithResume parsed ks e = take 3 (resumeBullets ks e @ rest)"
    using m rest pre by simp
  then show ?thesis using d3 rest(2) m by auto
qed

theorem merged_strengths_shape_witness:
  "length (mergeStrengthsWithResume
      [\<lparr>bullet_text = ''- Clean code'', bullet_evidence = None\<rparr>,
       \<lparr>bullet_text = ''- CLEAN CODE'', bullet_evidence = Some ''technical_score''\<rparr>,
       \<lparr>bullet_text = ''- Fast'', bullet_evidence = None\<rparr>]
      [''Python'', ''SQL''] []) \<le> 3
   \<and> mergeStrengthsWithResume
      [\<lparr>bullet_text = ''- Clean code'', bullet_evidence = None\<rparr>,
       \<lparr>bullet_text = ''- CLEAN CODE'', bullet_evidence = Some ''technical_score''\<rparr>,
       \<lparr>bullet_text = ''- Fast'', bullet_evidence = None\<rparr>]
      [''Python'', ''SQL''] []
     = [\<lparr>bullet_text = ''Resume skills: Python, SQL.'', bullet_evidence = Some ''resume.skills''\<rparr>,
        \<lparr>bullet_text = ''- Clean code'', bullet_evidence = None\<rparr>,
        \<lparr>bullet_text = ''- Fast'', bullet_evidence = None\<rparr>]"
proof -
  have v: "mergeStrengthsWithResume
      [\<lparr>bullet_text = ''- Clean code'', bullet_evidence = None\<rparr>,
       \<lparr>bullet_text = ''- CLEAN CODE'', bullet_evidence = Some ''technical_score''\<rparr>,
       \<lparr>bullet_text = ''- Fast'', bullet_evidence = None\<rparr>]
      [''Python'', ''SQL''] []
     = [\<lparr>bullet_text = ''Resume skills: Python, SQL.'', bullet_evidence = Some ''resume.skills''\<rparr>,
        \<lparr>bullet_text = ''- Clean code'', bullet_evidence = None\<rparr>,
        \<lparr>bullet_text = ''- Fast'', bullet_evidence = None\<rparr>]"
    by code_simp
  show ?thesis
    using merged_strengths_shape
      [of "[\<lparr>bullet_text = ''- Clean code'', bullet_evidence = None\<rparr>,
            \<lparr>bullet_text = ''- CLEAN CODE'', bullet_evidence = Some ''technical_score''\<rparr>,
            \<lparr>bullet_text = ''- Fast'', bullet_evidence = None\<rparr>]"
          "[''Python'', ''SQL'']" "[]"]
      v
    by simp
qed

subsection \<open>Telemetry producer: debounce and tab-switch severity\<close>

lemma timesOf_append: "timesOf ty (xs @ ys) = timesOf ty xs @ timesOf ty ys"
  by (simp add: timesOf_def)

lemma timesOf_Nil: "timesOf ty [] = []"
  by (simp add: timesOf_def)

lemma timesOf_log:
  "timesOf ty (logTelemetryEvent cid ok ty' sev now)
     = (if ty = ty' \<and> truthy cid \<and> ok then [now] else [])"
  by (simp add: timesOf_def logTelemetryEvent_def)

lemma quiet_step_ok: "quiet ty f st r \<Longrightarrow> step_ok ty f st r"
  by (simp add: quiet_def step_ok_def)

lemma quiet_then: "quiet ty f st (p st) \<Longrightarrow> step_ok ty f (fst (p st)) (q (fst (p st)))
    \<Longrightarrow> step_ok ty f st (andThen p q st)"
  by (auto simp add: quiet_def step_ok_def andThen_def Let_def timesOf_append split: prod.splits)

lemma then_quiet: "step_ok ty f st (p st) \<Longrightarrow> quiet ty f (fst (p st)) (q (fst (p st)))
    \<Longrightarrow> step_ok ty f st (andThen p q st)"
  by (auto simp add: quiet_def step_ok_def andThen_def Let_def timesOf_append split: prod.splits)

lemma quiet_quiet: "quiet ty f st (p st) \<Longrightarrow> quiet ty f (fst (p st)) (q (fst (p st)))
    \<Longrightarrow> quiet ty f st (andThen p q st)"
  by (auto simp add: quiet_def andThen_def Let_def timesOf_append split: prod.splits)

lemma motionCheck_ok: "step_ok ''SUSPICIOUS_BEHAVIOR'' lastMotion st (motionCheck cid ok moved now st)"
  by (simp add: step_ok_def motionCheck_def Let_def timesOf_log timesOf_Nil)

lemma faceStreaks_motion:
  "step_ok ''SUSPICIOUS_BEHAVIOR'' lastMotion st (faceStreaks cid ok count box moved now st)"
proof -
  let ?st0 = "st\<lparr>noFaceStreak := 0, multiFaceStreak := 0\<rparr>"
  have "step_ok ''SUSPICIOUS_BEHAVIOR'' lastMotion ?st0 (motionCheck cid ok moved now ?st0)"
    by (rule motionCheck_ok)
  then show ?thesis
    by (auto simp add: faceStreaks_def step_ok_def Let_def timesOf_Nil split: prod.splits)
qed

lemma noFaceCheck_quiet_motion:
  "quiet ''SUSPICIOUS_BEHAVIOR'' lastMotion st (noFaceCheck cid ok now st)"
  by (simp add: quiet_def noFaceCheck_def timesOf_log timesOf_Nil)

lemma multiFaceCheck_quiet_motion:
  "quiet ''SUSPICIOUS_BEHAVIOR'' lastMotion st (multiFaceCheck cid ok now st)"
  by (simp add: quiet_def multiFaceCheck_def timesOf_log timesOf_Nil)

lemma faceTick_motion:
  "step_ok ''SUSPICIOUS_BEHAVIOR'' lastMotion st (faceTick cid ok count box moved now1 now st)"
  unfolding faceTick_def
  by (intro then_quiet quiet_quiet faceStreaks_motion noFaceCheck_quiet_motion
      multiFaceCheck_quiet_motion)

lemma step_motion: "step_ok ''SUSPICIOUS_BEHAVIOR'' lastMotion st (step st x)"
proof (cases "stimulus x")
  case (FaceTick count box moved now1 now)
  then show ?thesis using faceTick_motion by simp
next
  case (MotionTick moved now)
  then show ?thesis
    using motionCheck_ok [of st "closure_candidateId x" "api_ok x" moved now]
    by (auto simp add: motionTick_def step_ok_def Let_def timesOf_Nil split: prod.splits)
qed (simp_all add: step_ok_def handleVisibilityChange_def trackEnded_def cameraUnavailable_def
       pasteChange_def Let_def timesOf_log timesOf_Nil)

lemma motionCheck_quiet:
  assumes "ty \<noteq> ''SUSPICIOUS_BEHAVIOR''"
    and "\<And>s n. f (s\<lparr>motionStreak := n\<rparr>) = f s"
    and "\<And>s t. f (s\<lparr>lastMotion := t\<rparr>) = f s"
  shows "quiet ty f st (motionCheck cid ok moved now st)"
  using assms by (simp add: quiet_def motionCheck_def Let_def timesOf_log timesOf_Nil)

lemma faceStreaks_quiet_noFace:
  "quiet ''FACE_NOT_DETECTED'' lastNoFace st (faceStreaks cid ok count box moved now st)"
proof -
  let ?st0 = "st\<lparr>noFaceStreak := 0, multiFaceStreak := 0\<rparr>"
  have "quiet ''FACE_NOT_DETECTED'' lastNoFace ?st0 (motionCheck cid ok moved now ?st0)"
    by (rule motionCheck_quiet) simp_all
  then show ?thesis
    by (auto simp add: faceStreaks_def quiet_def Let_def timesOf_Nil split: prod.splits)
qed

lemma faceStreaks_quiet_multiFace:
  "quiet ''MULTIPLE_FACES'' lastMultiFace st (faceStreaks cid ok count box moved now st)"
proof -
  let ?st0 = "st\<lparr>noFaceStreak := 0, multiFaceStreak := 0\<rparr>"
  have "quiet ''MULTIPLE_FACES'' lastMultiFace ?st0 (motionCheck cid ok moved now ?st0)"
    by (rule motionCheck_quiet) simp_all
  then show ?thesis
    by (auto simp add: faceStreaks_def quiet_def Let_def timesOf_Nil split: prod.splits)
qed

lemma faceStreaks_quiet_paste:
  "quiet ''COPY_PASTE_DETECTED'' lastPaste st (faceStreaks cid ok count box moved now st)"
proof -
  let ?st0 = "st\<lparr>noFaceStreak := 0, multiFaceStreak := 0\<rparr>"
  have "quiet ''COPY_PASTE_DETECTED'' lastPaste ?st0 (motionCheck cid ok moved now ?st0)"
    by (rule motionCheck_quiet) simp_all
  then show ?thesis
    by (auto simp add: faceStreaks_def quiet_def Let_def timesOf_Nil split: prod.splits)
qed

lemma faceStreaks_quiet_cameraOff:
  "quiet ''WEBCAM_DISABLED'' lastCameraOff st (faceStreaks cid ok count box moved now st)"
proof -
  let ?st0 = "st\<lparr>noFaceStreak := 0, multiFaceStreak := 0\<rparr>"
  have "quiet ''WEBCAM_DISABLED'' lastCameraOff ?st0 (motionCheck cid ok moved now ?st0)"
    by (rule motionCheck_quiet) simp_all
  then show ?thesis
    by (auto simp add: faceStreaks_def quiet_def Let_def timesOf_Nil split: prod.splits)
qed

lemma noFaceCheck_ok: "step_ok ''FACE_NOT_DETECTED'' lastNoFace st (noFaceCheck cid ok now st)"
  by (simp add: step_ok_def noFaceCheck_def timesOf_log timesOf_Nil)

lemma multiFaceCheck_ok: "step_ok ''MULTIPLE_FACES'' lastMultiFace st (multiFaceCheck cid ok now st)"
  by (simp add: step_ok_def multiFaceCheck_def timesOf_log timesOf_Nil)

lemma noFaceCheck_quiet:
  "ty \<noteq> ''FACE_NOT_DETECTED'' \<Longrightarrow> f (st\<lparr>lastNoFace := now, noFaceStreak := 0\<rparr>) = f st
   \<Longrightarrow> quiet ty f st (noFaceCheck cid ok now st)"
  by (simp add: quiet_def noFaceCheck_def timesOf_log timesOf_Nil)

lemma multiFaceCheck_quiet:
  "ty \<noteq> ''MULTIPLE_FACES'' \<Longrightarrow> f (st\<lparr>lastMultiFace := now, multiFaceStreak := 0\<rparr>) = f st
   \<Longrightarrow> quiet ty f st (multiFaceCheck cid ok now st)"
  by (simp add: quiet_def multiFaceCheck_def timesOf_log timesOf_Nil)

lemma faceTick_noFace:
  "step_ok ''FACE_NOT_DETECTED'' lastNoFace st (faceTick cid ok count box moved now1 now st)"
  unfolding faceTick_def
  by (intro quiet_then then_quiet faceStreaks_quiet_noFace noFaceCheck_ok multiFaceCheck_quiet)
     simp_all

lemma faceTick_multiFace:
  "step_ok ''MULTIPLE_FACES'' lastMultiFace st (faceTick cid ok count box moved now1 now st)"
  unfolding faceTick_def
  by (intro quiet_then faceStreaks_quiet_multiFace noFaceCheck_quiet multiFaceCheck_ok)
     simp_all

lemma faceTick_paste:
  "quiet ''COPY_PASTE_DETECTED'' lastPaste st (faceTick cid ok count box moved now1 now st)"
  unfolding faceTick_def
  by (intro quiet_quiet faceStreaks_quiet_paste noFaceCheck_quiet multiFaceCheck_quiet)
     simp_all

lemma faceTick_cameraOff:
  "quiet ''WEBCAM_DISABLED'' lastCameraOff st (faceTick cid ok count box moved now1 now st)"
  unfolding faceTick_def
  by (intro quiet_quiet faceStreaks_quiet_cameraOff noFaceCheck_quiet multiFaceCheck_quiet)
     simp_all

lemma motionTick_quiet:
  assumes "quiet ty f st (motionCheck cid ok moved now st)"
    and "\<And>s. f (s\<lparr>lastFrameData := True\<rparr>) = f s"
  shows "quiet ty f st (motionTick cid ok moved now st)"
  using assms by (auto simp add: motionTick_def quiet_def Let_def timesOf_Nil split: prod.splits)

lemmas other_handler_defs =
  handleVisibilityChange_def trackEnded_def cameraUnavailable_def pasteChange_def

lemma step_noFace: "step_ok ''FACE_NOT_DETECTED'' lastNoFace st (step st x)"
proof (cases "stimulus x")
  case (FaceTick count box moved now1 now)
  then show ?thesis using faceTick_noFace by simp
next
  case (MotionTick moved now)
  have "quiet ''FACE_NOT_DETECTED'' lastNoFace st
          (motionTick (closure_candidateId x) (api_ok x) moved now st)"
    by (intro motionTick_quiet motionCheck_quiet) simp_all
  then show ?thesis using MotionTick by (simp add: quiet_step_ok)
qed (simp_all add: step_ok_def other_handler_defs Let_def timesOf_log timesOf_Nil)

lemma step_multiFace: "step_ok ''MULTIPLE_FACES'' lastMultiFace st (step st x)"
proof (cases "stimulus x")
  case (FaceTick count box moved now1 now)
  then show ?thesis using faceTick_multiFace by simp
next
  case (MotionTick moved now)
  have "quiet ''MULTIPLE_FACES'' lastMultiFace st
          (motionTick (closure_candidateId x) (api_ok x) moved now st)"
    by (intro motionTick_quiet motionCheck_quiet) simp_all
  then show ?thesis using MotionTick by (simp add: quiet_step_ok)
qed (simp_all add: step_ok_def other_handler_defs Let_def timesOf_log timesOf_Nil)

lemma step_paste: "step_ok ''COPY_PASTE_DETECTED'' lastPaste st (step st x)"
proof (cases "stimulus x")
  case (FaceTick count box moved now1 now)
  then show ?thesis using faceTick_paste by (simp add: quiet_step_ok)
next
  case (MotionTick moved now)
  have "quiet ''COPY_PASTE_DETECTED'' lastPaste st
          (motionTick (closure_candidateId x) (api_ok x) moved now st)"
    by (intro motionTick_quiet motionCheck_quiet) simp_all
  then show ?thesis using MotionTick by (simp add: quiet_step_ok)
qed (simp_all add: step_ok_def other_handler_defs Let_def timesOf_log timesOf_Nil)

lemma step_cameraOff:
  "\<not> isCameraUnavailable x \<Longrightarrow> step_ok ''WEBCAM_DISABLED'' lastCameraOff st (step st x)"
proof (cases "stimulus x")
  case (FaceTick count box moved now1 now)
  then show ?thesis using faceTick_cameraOff by (simp add: quiet_step_ok)
next
  case (MotionTick moved now)
  have "quiet ''WEBCAM_DISABLED'' lastCameraOff st
          (motionTick (closure_candidateId x) (api_ok x) moved now st)"
    by (intro motionTick_quiet motionCheck_quiet) simp_all
  then show ?thesis using MotionTick by (simp add: quiet_step_ok)
qed (simp_all add: step_ok_def other_handler_defs Let_def timesOf_log timesOf_Nil
       isCameraUnavailable_def)

lemma run_Cons:
  "step st x = (st1, out1) \<Longrightarrow> run st1 xs = (st2, out2) \<Longrightarrow> run st (x # xs) = (st2, out1 @ out2)"
  by (simp del: step.simps)

lemma run_spaced:
  assumes "\<And>s x. x \<in> set xs \<Longrightarrow> step_ok ty f s (step s x)"
  shows "sorted_wrt apart (timesOf ty (snd (run st xs)))
         \<and> (\<forall>t \<in> set (timesOf ty (snd (run st xs))). t - f st > 15000)"
  using assms
proof (induction xs arbitrary: st)
  case Nil
  then show ?case by (simp add: timesOf_Nil)
next
  case (Cons x xs)
  obtain st1 out1 where s1: "step st x = (st1, out1)" by (cases "step st x")
  obtain st2 out2 where s2: "run st1 xs = (st2, out2)" by (cases "run st1 xs")
  have ok: "step_ok ty f st (st1, out1)" using Cons.prems [of x st] s1 by simp
  have ih: "sorted_wrt apart (timesOf ty out2)" "\<forall>t \<in> set (timesOf ty out2). t - f st1 > 15000"
    using Cons.IH [of st1] Cons.prems s2 by simp_all
  have out: "timesOf ty (snd (run st (x # xs))) = timesOf ty out1 @ timesOf ty out2"
    using run_Cons [OF s1 s2] by (simp add: timesOf_append)
  consider (none) "timesOf ty out1 = []" "f st \<le> f st1"
    | (one) now where "timesOf ty out1 = [now]" "15000 < now - f st" "f st1 = now"
    using ok unfolding step_ok_def by auto
  then show ?case
  proof cases
    case none
    have "\<forall>t \<in> set (timesOf ty out2). t - f st > 15000"
      using ih(2) none(2) by auto
    then show ?thesis unfolding out using none(1) ih(1) by simp
  next
    case one
    have later: "\<forall>t \<in> set (timesOf ty out2). apart now t"
      using ih(2) one(3) by (simp add: apart_def)
    have "\<forall>t \<in> set (timesOf ty out2). t - f st > 15000"
      using ih(2) one(2,3) by auto
    then show ?thesis unfolding out using one(1,2) ih(1) later by simp
  qed
qed

lemma emits_log: "ty \<in> set producerTypes \<Longrightarrow> emits (st, logTelemetryEvent cid ok ty sev now)"
  by (simp add: emits_def logTelemetryEvent_def)

lemma emits_Nil: "emits (st, [])"
  by (simp add: emits_def)

lemma emits_andThen: "(\<And>s. emits (p s)) \<Longrightarrow> (\<And>s. emits (q s)) \<Longrightarrow> emits (andThen p q st)"
  by (auto simp add: emits_def andThen_def Let_def split: prod.splits) (metis snd_conv)+

lemma emits_motionCheck: "emits (motionCheck cid ok moved now st)"
  by (simp add: motionCheck_def Let_def emits_log emits_Nil producerTypes_def)

lemma emits_faceStreaks: "emits (faceStreaks cid ok count box moved now st)"
proof -
  have "emits (motionCheck cid ok moved now (st\<lparr>noFaceStreak := 0, multiFaceStreak := 0\<rparr>))"
    by (rule emits_motionCheck)
  then show ?thesis
    by (auto simp add: faceStreaks_def emits_def Let_def split: prod.splits)
qed

lemma emits_noFaceCheck: "emits (noFaceCheck cid ok now st)"
  by (simp add: noFaceCheck_def emits_log emits_Nil producerTypes_def)

lemma emits_multiFaceCheck: "emits (multiFaceCheck cid ok now st)"
  by (simp add: multiFaceCheck_def emits_log emits_Nil producerTypes_def)

lemma emits_faceTick: "emits (faceTick cid ok count box moved now1 now st)"
  unfolding faceTick_def
  by (intro emits_andThen emits_faceStreaks emits_noFaceCheck emits_multiFaceCheck)

lemma emits_motionTick: "emits (motionTick cid ok moved now st)"
  using emits_motionCheck [of cid ok moved now st]
  by (auto simp add: motionTick_def emits_def Let_def split: prod.splits)

lemma emits_step: "emits (step st x)"
proof (cases "stimulus x")
  case (FaceTick count box moved now1 now)
  then show ?thesis using emits_faceTick by simp
next
  case (MotionTick moved now)
  then show ?thesis using emits_motionTick by simp
qed (simp_all add: handleVisibilityChange_def trackEnded_def cameraUnavailable_def
       pasteChange_def Let_def emits_log emits_Nil producerTypes_def)

lemma emits_run: "emits (run st xs)"
proof (induction xs arbitrary: st)
  case Nil
  then show ?case by (simp add: emits_Nil)
next
  case (Cons x xs)
  obtain st1 out1 where s1: "step st x = (st1, out1)" by (cases "step st x")
  obtain st2 out2 where s2: "run st1 xs = (st2, out2)" by (cases "run st1 xs")
  have "emits (st1, out1)" using emits_step [of st x] s1 by simp
  moreover have "emits (st2, out2)" using Cons.IH [of st1] s2 by simp
  ultimately show ?case using run_Cons [OF s1 s2] by (auto simp add: emits_def)
qed

lemma other_types_silent:
  assumes "ty \<notin> set producerTypes"
  shows "timesOf ty (producerLog xs) = []"
proof -
  have "\<forall>e \<in> set (producerLog xs). event_type e \<noteq> ty"
    using emits_run [of initialProducer xs] assms by (auto simp add: emits_def producerLog_def)
  then show ?thesis by (simp add: timesOf_def filter_empty_conv)
qed


lemma step_webcam_silent:
  assumes "\<not> isCameraUnavailable x" and "\<not> isTrackEnded x"
  shows "timesOf ''WEBCAM_DISABLED'' (snd (step st x)) = []"
proof (cases "stimulus x")
  case (FaceTick count box moved now1 now)
  then show ?thesis using faceTick_cameraOff by (simp add: quiet_def)
next
  case (MotionTick moved now)
  have "quiet ''WEBCAM_DISABLED'' lastCameraOff st
          (motionTick (closure_candidateId x) (api_ok x) moved now st)"
    by (intro motionTick_quiet motionCheck_quiet) simp_all
  then show ?thesis using MotionTick by (simp add: quiet_def)
next
  case (TrackEnded now)
  then show ?thesis using assms(2) by (simp add: isTrackEnded_def)
next
  case (CameraUnavailable now)
  then show ?thesis using assms(1) by (simp add: isCameraUnavailable_def)
qed (simp_all add: handleVisibilityChange_def pasteChange_def Let_def timesOf_log timesOf_Nil)

lemma step_webcam_failure:
  assumes "isCameraUnavailable x"
  shows "length (timesOf ''WEBCAM_DISABLED'' (snd (step st x))) \<le> 1"
  using assms
  by (cases "stimulus x")
     (simp_all add: isCameraUnavailable_def cameraUnavailable_def timesOf_def
       logTelemetryEvent_def)

lemma run_webcam_failures:
  assumes "filter isTrackEnded xs = []"
  shows "length (timesOf ''WEBCAM_DISABLED'' (snd (run st xs)))
           \<le> length (filter isCameraUnavailable xs)"
  using assms
proof (induction xs arbitrary: st)
  case Nil
  then show ?case by (simp add: timesOf_Nil)
next
  case (Cons x xs)
  obtain st1 out1 where s1: "step st x = (st1, out1)" by (cases "step st x")
  obtain st2 out2 where s2: "run st1 xs = (st2, out2)" by (cases "run st1 xs")
  have nx: "\<not> isTrackEnded x" and nxs: "filter isTrackEnded xs = []"
    using Cons.prems by (simp_all split: if_splits)
  have ih: "length (timesOf ''WEBCAM_DISABLED'' out2) \<le> length (filter isCameraUnavailable xs)"
    using Cons.IH [OF nxs, of st1] s2 by simp
  have out: "timesOf ''WEBCAM_DISABLED'' (snd (run st (x # xs)))
      = timesOf ''WEBCAM_DISABLED'' out1 @ timesOf ''WEBCAM_DISABLED'' out2"
    using run_Cons [OF s1 s2] by (simp add: timesOf_append)
  show ?case
  proof (cases "isCameraUnavailable x")
    case True
    have "length (timesOf ''WEBCAM_DISABLED'' out1) \<le> 1"
      using step_webcam_failure [OF True, of st] s1 by simp
    then show ?thesis unfolding out using ih True by simp
  next
    case False
    have "timesOf ''WEBCAM_DISABLED'' out1 = []"
      using step_webcam_silent [OF False nx, of st] s1 by simp
    then show ?thesis unfolding out using ih False by simp
  qed
qed

lemma webcam_debounced:
  assumes "oneCameraStart xs"
  shows "sorted_wrt apart (timesOf ''WEBCAM_DISABLED'' (producerLog xs))"
proof (cases "filter isCameraUnavailable xs = []")
  case True
  then have "\<And>x. x \<in> set xs \<Longrightarrow> \<not> isCameraUnavailable x"
    by (simp add: filter_empty_conv)
  then show ?thesis
    using run_spaced [of xs "''WEBCAM_DISABLED''" lastCameraOff initialProducer]
      step_cameraOff
    by (simp add: producerLog_def)
next
  case False
  then have one: "length (filter isCameraUnavailable xs) = 1"
    and none: "filter isTrackEnded xs = []"
    using assms by (simp_all add: oneCameraStart_def)
  have "length (timesOf ''WEBCAM_DISABLED'' (producerLog xs)) \<le> 1"
    using run_webcam_failures [OF none, of initialProducer] one by (simp add: producerLog_def)
  then show ?thesis
    by (cases "timesOf ''WEBCAM_DISABLED'' (producerLog xs)") simp_all
qed

text \<open>
  Claim C5, amended.  For every session and every telemetry event type other than
  \<open>TAB_SWITCH\<close>, the events of that type are logged more than 15 seconds apart; for
  \<open>WEBCAM_DISABLED\<close> the session is one mount of the page, where the camera start fails at
  most once and then leaves no track whose end is reported.
\<close>

theorem gated_events_debounced:
  assumes "ty \<noteq> ''TAB_SWITCH''"
    and "ty = ''WEBCAM_DISABLED'' \<longrightarrow> oneCameraStart xs"
  shows "debounced ty (producerLog xs)"
proof -
  consider (motion) "ty = ''SUSPICIOUS_BEHAVIOR''" | (noFace) "ty = ''FACE_NOT_DETECTED''"
    | (multiFace) "ty = ''MULTIPLE_FACES''" | (paste) "ty = ''COPY_PASTE_DETECTED''"
    | (camera) "ty = ''WEBCAM_DISABLED''" | (other) "ty \<notin> set producerTypes"
    using assms(1) by (auto simp add: producerTypes_def)
  then show ?thesis
  proof cases
    case motion
    then show ?thesis
      using run_spaced [of xs "''SUSPICIOUS_BEHAVIOR''" lastMotion initialProducer, OF step_motion]
      by (simp add: debounced_def producerLog_def)
  next
    case noFace
    then show ?thesis
      using run_spaced [of xs "''FACE_NOT_DETECTED''" lastNoFace initialProducer, OF step_noFace]
      by (simp add: debounced_def producerLog_def)
  next
    case multiFace
    then show ?thesis
      using run_spaced [of xs "''MULTIPLE_FACES''" lastMultiFace initialProducer, OF step_multiFace]
      by (simp add: debounced_def producerLog_def)
  next
    case paste
    then show ?thesis
      using run_spaced [of xs "''COPY_PASTE_DETECTED''" lastPaste initialProducer, OF step_paste]
      by (simp add: debounced_def producerLog_def)
  next
    case camera
    then show ?thesis using webcam_debounced assms(2) by (simp add: debounced_def)
  next
    case other
    then show ?thesis using other_types_silent by (simp add: debounced_def)
  qed
qed

text \<open>
  Claim C5, as stated for every event type, fails for \<open>TAB_SWITCH\<close>: the visibility
  handler has no cooldown, and two tab switches one second apart, both seen with the
  candidate id loaded and both delivered, are both logged.
\<close>

theorem tab_switch_not_debounced_counterexample:
  "timesOf ''TAB_SWITCH'' (producerLog [tabSwitch 7 100000, tabSwitch 7 101000]) = [100000, 101000]
   \<and> \<not> debounced ''TAB_SWITCH'' (producerLog [tabSwitch 7 100000, tabSwitch 7 101000])"
  by (simp add: debounced_def producerLog_def tabSwitch_def handleVisibilityChange_def
      initialProducer_def logTelemetryEvent_def truthy_def timesOf_def apart_def Let_def)

lemma faceSession_log:
  "timesOf ''MULTIPLE_FACES'' (producerLog faceSession) = [20000, 40000]
   \<and> timesOf ''WEBCAM_DISABLED'' (producerLog faceSession) = [41000]"
  by (simp add: faceSession_def producerLog_def initialProducer_def faceTick_def andThen_def
        faceStreaks_def noFaceCheck_def multiFaceCheck_def trackEnded_def
        NO_FACE_THRESHOLD_def MULTI_FACE_THRESHOLD_def
        logTelemetryEvent_def truthy_def timesOf_def Let_def)

theorem gated_events_debounced_witness:
  "debounced ''MULTIPLE_FACES'' (producerLog faceSession)
   \<and> timesOf ''MULTIPLE_FACES'' (producerLog faceSession) = [20000, 40000]
   \<and> oneCameraStart faceSession
   \<and> debounced ''WEBCAM_DISABLED'' (producerLog faceSession)
   \<and> timesOf ''WEBCAM_DISABLED'' (producerLog faceSession) = [41000]"
proof -
  have t1: "''MULTIPLE_FACES'' \<noteq> ''TAB_SWITCH''" by simp
  have t2: "''WEBCAM_DISABLED'' \<noteq> ''TAB_SWITCH''" by simp
  have cam: "oneCameraStart faceSession"
    by (simp add: oneCameraStart_def faceSession_def isCameraUnavailable_def)
  show ?thesis
    using gated_events_debounced [of "''MULTIPLE_FACES''" faceSession, OF t1]
      gated_events_debounced [of "''WEBCAM_DISABLED''" faceSession, OF t2] cam faceSession_log
    by simp
qed








subsection \<open>Rationale parser\<close>

lemma search_None_iff: "search m s = None \<longleftrightarrow> (\<forall>u. suffix u s \<longrightarrow> m u = None)"
proof (induction s)
  case Nil
  then show ?case by (auto split: option.splits)
next
  case (Cons c cs)
  show ?case
  proof
    assume none: "search m (c # cs) = None"
    then have here: "m (c # cs) = None" and later: "search m cs = None"
      by (auto split: option.splits)
    show "\<forall>u. suffix u (c # cs) \<longrightarrow> m u = None"
      using here later Cons.IH by (auto simp add: suffix_Cons)
  next
    assume all: "\<forall>u. suffix u (c # cs) \<longrightarrow> m u = None"
    then have "m (c # cs) = None" by simp
    moreover have "search m cs = None"
      using all Cons.IH by (simp add: suffix_Cons)
    ultimately show "search m (c # cs) = None" by simp
  qed
qed

lemma search_Some:
  "search m s = Some (pre, r) \<Longrightarrow> \<exists>u. s = pre @ u \<and> m u = Some r"
proof (induction s arbitrary: pre)
  case Nil
  then show ?case by (auto split: option.splits)
next
  case (Cons c cs)
  show ?case
  proof (cases "m (c # cs)")
    case (Some r')
    then show ?thesis using Cons.prems by auto
  next
    case None
    then obtain pre' where p: "search m cs = Some (pre', r)" "pre = c # pre'"
      using Cons.prems by (auto split: option.splits)
    then show ?thesis using Cons.IH [OF p(1)] by auto
  qed
qed

lemma matchLiteral_Some:
  "matchLiteral p s = Some r \<Longrightarrow> \<exists>h. s = h @ r \<and> map canonicalize h = map canonicalize p"
proof (induction p s rule: matchLiteral.induct)
  case (1 s)
  then show ?case by simp
next
  case (2 p ps)
  then show ?case by simp
next
  case (3 p ps c cs)
  then have eq: "canonicalize p = canonicalize c" and rest: "matchLiteral ps cs = Some r"
    by (auto split: if_splits)
  obtain h where "cs = h @ r" "map canonicalize h = map canonicalize ps"
    using 3(1) [OF eq rest] by blast
  then have "c # cs = (c # h) @ r \<and> map canonicalize (c # h) = map canonicalize (p # ps)"
    using eq by simp
  then show ?case by blast
qed

lemma literal_absent:
  assumes "\<not> sublist (map canonicalize p) (map canonicalize t)" and "suffix u t"
  shows "matchLiteral p u = None"
proof (rule ccontr)
  assume "matchLiteral p u \<noteq> None"
  then obtain r where "matchLiteral p u = Some r" by auto
  then obtain h where h: "u = h @ r" "map canonicalize h = map canonicalize p"
    using matchLiteral_Some by blast
  obtain pre where "t = pre @ u" using assms(2) by (auto simp add: suffix_def)
  then have "map canonicalize t = map canonicalize pre @ map canonicalize p @ map canonicalize r"
    using h by simp
  then have "sublist (map canonicalize p) (map canonicalize t)"
    unfolding sublist_def by blast
  then show False using assms(1) by simp
qed

lemma getSection_absent: "\<not> hasHeader label t \<Longrightarrow> getSection t label = []"
proof -
  assume "\<not> hasHeader label t"
  then have "\<forall>u. suffix u t \<longrightarrow> matchSection label u = None"
    using literal_absent [of "''['' @ label @ '']:''" t]
    by (simp add: hasHeader_def matchSection_def)
  then have "search (matchSection label) t = None" by (simp add: search_None_iff)
  then show ?thesis by (simp add: getSection_def)
qed

lemma verdict_absent: "\<not> hasHeader ''VERDICT'' t \<Longrightarrow> search matchVerdict t = None"
proof -
  assume "\<not> hasHeader ''VERDICT'' t"
  then have "\<forall>u. suffix u t \<longrightarrow> matchVerdict u = None"
    using literal_absent [of "''[VERDICT]:''" t]
    by (simp add: hasHeader_def matchVerdict_def)
  then show ?thesis by (simp add: search_None_iff)
qed

lemma parseBullets_empty: "parseBullets [] = []"
  by (simp add: parseBullets_def bulletLines_def stripMarker_def trim_def)

text \<open>
  The defaults of \<open>parseAIReport\<close>, a total function.  A missing or empty rationale
  gives the pending report.  For any other text: without a \<open>[SUMMARY]:\<close> header (or with
  an empty summary section) the summary is the fixed placeholder; without a
  \<open>[STRENGTHS]:\<close> or \<open>[RISKS]:\<close> header, or when the section yields no bullet, the list
  is the fixed default bullet; without a \<open>[VERDICT]:\<close> header, or when no header is
  followed by one of \<open>HIRE\<close>, \<open>NO_HIRE\<close>, \<open>REVIEW\<close>, the verdict is null.
\<close>

lemma parseAIReport_defaults:
  "parseAIReport None = pendingRationale
   \<and> parseAIReport (Some []) = pendingRationale
   \<and> (t \<noteq> [] \<longrightarrow>
        (\<not> hasHeader ''SUMMARY'' t \<longrightarrow>
           summary (parseAIReport (Some t)) = ''Awaiting assessment completion for AI analysis.'')
      \<and> (getSection t ''SUMMARY'' = [] \<longrightarrow>
           summary (parseAIReport (Some t)) = ''Awaiting assessment completion for AI analysis.'')
      \<and> (\<not> hasHeader ''STRENGTHS'' t \<or> parseBullets (getSection t ''STRENGTHS'') = [] \<longrightarrow>
           strengths (parseAIReport (Some t))
             = [Bullet \<lparr>bullet_text = ''Technical assessment completed'', bullet_evidence = None\<rparr>])
      \<and> (\<not> hasHeader ''RISKS'' t \<or> parseBullets (getSection t ''RISKS'') = [] \<longrightarrow>
           risks (parseAIReport (Some t))
             = [Bullet \<lparr>bullet_text = ''No major risks highlighted'', bullet_evidence = None\<rparr>])
      \<and> (\<not> hasHeader ''VERDICT'' t \<or> search matchVerdict t = None \<longrightarrow>
           verdict (parseAIReport (Some t)) = None))"
proof -
  have s: "parseBullets (getSection t ''STRENGTHS'') = []" if "\<not> hasHeader ''STRENGTHS'' t"
    using getSection_absent [OF that] parseBullets_empty by simp
  have r: "parseBullets (getSection t ''RISKS'') = []" if "\<not> hasHeader ''RISKS'' t"
    using getSection_absent [OF that] parseBullets_empty by simp
  have v: "search matchVerdict t = None" if "\<not> hasHeader ''VERDICT'' t"
    using verdict_absent [OF that] .
  have m: "getSection t ''SUMMARY'' = []" if "\<not> hasHeader ''SUMMARY'' t"
    using getSection_absent [OF that] .
  show ?thesis
    using s r v m by (auto simp add: parseAIReport_def pendingRationale_def Let_def)
qed

lemma parseAIReport_defaults_example:
  "summary (parseAIReport (Some (''[verdict]: maybe'' @ [CHR 0x0A] @ ''[RISKS]: - slow'')))
     = ''Awaiting assessment completion for AI analysis.''
   \<and> strengths (parseAIReport (Some (''[verdict]: maybe'' @ [CHR 0x0A] @ ''[RISKS]: - slow'')))
     = [Bullet \<lparr>bullet_text = ''Technical assessment completed'', bullet_evidence = None\<rparr>]
   \<and> verdict (parseAIReport (Some (''[verdict]: maybe'' @ [CHR 0x0A] @ ''[RISKS]: - slow''))) = None
   \<and> risks (parseAIReport (Some (''[verdict]: maybe'' @ [CHR 0x0A] @ ''[RISKS]: - slow'')))
     = [Bullet \<lparr>bullet_text = ''- slow'', bullet_evidence = None\<rparr>]"
proof -
  let ?t = "''[verdict]: maybe'' @ [CHR 0x0A] @ ''[RISKS]: - slow''"
  have ne: "?t \<noteq> []" by simp
  have h1: "\<not> hasHeader ''SUMMARY'' ?t" by code_simp
  have h2: "\<not> hasHeader ''STRENGTHS'' ?t" by code_simp
  have h3: "search matchVerdict ?t = None" by code_simp
  have h4: "risks (parseAIReport (Some ?t))
     = [Bullet \<lparr>bullet_text = ''- slow'', bullet_evidence = None\<rparr>]" by code_simp
  note d = parseAIReport_defaults [of ?t, THEN conjunct2, THEN conjunct2, THEN mp, OF ne]
  have a: "summary (parseAIReport (Some ?t)) = ''Awaiting assessment completion for AI analysis.''"
    using d h1 by blast
  have b: "strengths (parseAIReport (Some ?t))
     = [Bullet \<lparr>bullet_text = ''Technical assessment completed'', bullet_evidence = None\<rparr>]"
    using d h2 by blast
  have c: "verdict (parseAIReport (Some ?t)) = None"
    using d h3 by blast
  show ?thesis using a b c h4 by (intro conjI)
qed

text \<open>
  Claim C4.  For a missing rationale the parser should return placeholder bullets like
  the branch for a non-empty text does.  It returns bare strings in the place of bullets,
  and the page's merge of the strengths fails on them with a TypeError.
\<close>

theorem parseAIReport_null_placeholders:
  "strengths (parseAIReport None) = [Plain ''Assessment data pending'']
   \<and> risks (parseAIReport None) = [Plain ''No analysis available yet'']
   \<and> strengths (parseAIReport (Some [])) = [Plain ''Assessment data pending'']
   \<and> mergedStrengths
        \<lparr>technical_score = 0, ai_rationale = None, hiring_recommendation = None,
         submissions = [], resume_skills = [''Python''], resume_experience_zone = [],
         resume_experience_years = None\<rparr> = Inl TypeError"
  by (simp add: parseAIReport_def mergedStrengths_def)

lemma asBullets_map: "asBullets (map Bullet bs) = Inr bs"
  by (induction bs) simp_all

lemma mergedStrengths_bullets:
  assumes "t \<noteq> []" and "ai_rationale candidate = Some t"
  shows "\<exists>bs. mergedStrengths candidate = Inr bs"
proof -
  have "\<exists>bs. strengths (parseAIReport (Some t)) = map Bullet bs"
  proof (cases "parseBullets (getSection t ''STRENGTHS'') = []")
    case True
    then have "strengths (parseAIReport (Some t))
        = map Bullet [\<lparr>bullet_text = ''Technical assessment completed'', bullet_evidence = None\<rparr>]"
      using assms(1) by (simp add: parseAIReport_def Let_def)
    then show ?thesis by (rule exI)
  next
    case False
    then have "strengths (parseAIReport (Some t))
        = map Bullet (parseBullets (getSection t ''STRENGTHS''))"
      using assms(1) by (simp add: parseAIReport_def Let_def)
    then show ?thesis by (rule exI)
  qed
  then obtain bs where "strengths (parseAIReport (Some t)) = map Bullet bs" by (rule exE)
  then show ?thesis using assms(2) by (simp add: mergedStrengths_def asBullets_map)
qed

text \<open>
  Claim C6, as stated, fails on a line that cites twice: only the first citation is
  removed, and the text still contains the citation.
\<close>

theorem repeated_citation_counterexample:
  "containsCitation ''Solid EVIDENCE: code EVIDENCE: code''
   \<and> bullet_evidence (parseBulletLine ''Solid EVIDENCE: code EVIDENCE: code'') = Some ''code''
   \<and> bullet_text (parseBulletLine ''Solid EVIDENCE: code EVIDENCE: code'') = ''Solid  EVIDENCE: code''
   \<and> containsCitation (bullet_text (parseBulletLine ''Solid EVIDENCE: code EVIDENCE: code''))"
  by code_simp

lemma search_first:
  "search m s = Some (pre, r) \<Longrightarrow> s = p @ u \<Longrightarrow> length p < length pre \<Longrightarrow> m u = None"
proof (induction s arbitrary: pre p)
  case Nil
  then show ?case by (auto split: option.splits)
next
  case (Cons c cs)
  show ?case
  proof (cases "m (c # cs)")
    case (Some r')
    then have "pre = []" using Cons.prems(1) by simp
    then show ?thesis using Cons.prems(3) by simp
  next
    case None
    then obtain pre' where p: "search m cs = Some (pre', r)" "pre = c # pre'"
      using Cons.prems(1) by (auto split: option.splits)
    show ?thesis
    proof (cases p)
      case Nil
      then show ?thesis using None Cons.prems(2) by simp
    next
      case (Cons d p')
      then have "cs = p' @ u" "length p' < length pre'"
        using Cons.prems(2,3) p(2) by simp_all
      then show ?thesis using Cons.IH [OF p(1)] by blast
    qed
  qed
qed

lemma matchLiteral_append:
  "matchLiteral p s = Some r \<Longrightarrow> matchLiteral p (s @ b) = Some (r @ b)"
  by (induction p s rule: matchLiteral.induct) (auto split: if_splits)

lemma matchEvidence_Some:
  assumes "matchEvidence s = Some (tag, rest)"
  shows "\<exists>hdr ws. s = hdr @ ws @ tag @ rest \<and> map canonicalize hdr = map canonicalize ''EVIDENCE:''
           \<and> (\<forall>c \<in> set ws. isWhiteSpace c) \<and> tag \<noteq> [] \<and> (\<forall>c \<in> set tag. isTagChar c)
           \<and> (rest = [] \<or> \<not> isTagChar (hd rest))"
proof -
  obtain r where r: "matchLiteral ''EVIDENCE:'' s = Some r"
    using assms by (auto simp add: matchEvidence_def split: option.splits)
  let ?r = "dropWhile isWhiteSpace r"
  have tag: "tag = takeWhile isTagChar ?r" "rest = dropWhile isTagChar ?r" "tag \<noteq> []"
    using assms r by (auto simp add: matchEvidence_def Let_def split: if_splits)
  obtain hdr where hdr: "s = hdr @ r" "map canonicalize hdr = map canonicalize ''EVIDENCE:''"
    using matchLiteral_Some [OF r] by blast
  have "r = takeWhile isWhiteSpace r @ tag @ rest"
    using tag by simp
  then have "s = hdr @ takeWhile isWhiteSpace r @ tag @ rest" using hdr(1) by simp
  moreover have "\<forall>c \<in> set (takeWhile isWhiteSpace r). isWhiteSpace c"
    by (auto dest: set_takeWhileD)
  moreover have "\<forall>c \<in> set tag. isTagChar c"
    using tag(1) by (auto dest: set_takeWhileD)
  moreover have "rest = [] \<or> \<not> isTagChar (hd rest)"
    using tag(2) hd_dropWhile [of isTagChar ?r] by auto
  ultimately show ?thesis using hdr(2) tag(3) by blast
qed

lemma matchEvidence_append:
  assumes "matchEvidence u \<noteq> None"
  shows "matchEvidence (u @ b) \<noteq> None"
proof -
  obtain r where r: "matchLiteral ''EVIDENCE:'' u = Some r"
    using assms by (auto simp add: matchEvidence_def split: option.splits)
  let ?r = "dropWhile isWhiteSpace r"
  have tag: "takeWhile isTagChar ?r \<noteq> []"
    using assms r by (auto simp add: matchEvidence_def Let_def split: if_splits)
  then obtain c cs where c: "?r = c # cs" "isTagChar c"
    by (cases ?r) (auto split: if_splits)
  have "c \<in> set r" using c(1) by (metis list.set_intros(1) set_dropWhileD)
  moreover have "\<not> isWhiteSpace c" using c(1) hd_dropWhile [of isWhiteSpace r] by auto
  ultimately have "dropWhile isWhiteSpace (r @ b) = ?r @ b"
    by (rule dropWhile_append1)
  then have "takeWhile isTagChar (dropWhile isWhiteSpace (r @ b)) \<noteq> []"
    using c by simp
  then show ?thesis
    using matchLiteral_append [OF r, of b] by (simp add: matchEvidence_def Let_def)
qed

lemma search_found: "suffix u s \<Longrightarrow> m u = Some r \<Longrightarrow> search m s \<noteq> None"
proof
  assume "suffix u s" "m u = Some r" "search m s = None"
  then have "m u = None" using search_None_iff [of m s] by simp
  then show False using \<open>m u = Some r\<close> by simp
qed

lemma search_found_rev: "search m s \<noteq> None \<Longrightarrow> \<exists>u r. suffix u s \<and> m u = Some r"
proof -
  assume "search m s \<noteq> None"
  then obtain pre r where found: "search m s = Some (pre, r)" by (cases "search m s") auto
  obtain u where "s = pre @ u" "m u = Some r" using search_Some [OF found] by auto
  then show ?thesis unfolding suffix_def by auto
qed

lemma citation_mono:
  assumes "containsCitation y"
  shows "containsCitation (a @ y @ b)"
proof -
  have "search matchEvidence y \<noteq> None" using assms unfolding containsCitation_def .
  then obtain u r where u: "suffix u y" "matchEvidence u = Some r"
    using search_found_rev [of matchEvidence y] by auto
  obtain p where "y = p @ u" using u(1) unfolding suffix_def by blast
  then have "a @ y @ b = (a @ p) @ (u @ b)" by simp
  then have suf: "suffix (u @ b) (a @ y @ b)" unfolding suffix_def by blast
  have "matchEvidence (u @ b) \<noteq> None" using u(2) matchEvidence_append [of u b] by simp
  then obtain r' where "matchEvidence (u @ b) = Some r'" by (cases "matchEvidence (u @ b)") auto
  then have "search matchEvidence (a @ y @ b) \<noteq> None" using suf by (rule search_found [rotated])
  then show ?thesis unfolding containsCitation_def .
qed

lemma dropTrailing_part: "\<exists>w. s = dropTrailingWhiteSpace s @ w"
proof -
  have "rev (takeWhile isWhiteSpace (rev s) @ dropWhile isWhiteSpace (rev s)) = rev (rev s)"
    by (simp only: takeWhile_dropWhile_id)
  then have "dropTrailingWhiteSpace s @ rev (takeWhile isWhiteSpace (rev s)) = s"
    by (simp only: rev_append rev_rev_ident dropTrailingWhiteSpace_def)
  then show ?thesis by metis
qed

lemma trim_part: "\<exists>v w. s = v @ trim s @ w"
proof -
  have "trim s = dropTrailingWhiteSpace (dropWhile isWhiteSpace s)"
    by (simp add: trim_def dropTrailingWhiteSpace_def)
  then obtain w where "dropWhile isWhiteSpace s = trim s @ w"
    using dropTrailing_part [of "dropWhile isWhiteSpace s"] by auto
  then have "s = takeWhile isWhiteSpace s @ trim s @ w"
    by (metis takeWhile_dropWhile_id)
  then show ?thesis by blast
qed

lemma citation_survives:
  assumes "containsCitation (trim (dropTrailingWhiteSpace s))"
  shows "containsCitation s"
proof -
  obtain v w where "dropTrailingWhiteSpace s = v @ trim (dropTrailingWhiteSpace s) @ w"
    using trim_part by blast
  moreover obtain w' where "s = dropTrailingWhiteSpace s @ w'"
    using dropTrailing_part by blast
  ultimately have "s = v @ trim (dropTrailingWhiteSpace s) @ (w @ w')"
    by (metis append.assoc)
  then show ?thesis using citation_mono [OF assms, of v "w @ w'"] by simp
qed

text \<open>
  Cutting the leftmost citation out of a line joins the text before it to the text after
  it, and the join can be a citation that the line did not contain at that place: the only
  citation of \<^verbatim>\<open>EVIDENCEEVIDENCE: x: y\<close> starts at index 8, and the parsed text is
  \<^verbatim>\<open>EVIDENCE: y\<close>.
\<close>

lemma joined_citation_example:
  "parseBulletLine ''EVIDENCEEVIDENCE: x: y''
     = \<lparr>bullet_text = ''EVIDENCE: y'', bullet_evidence = Some ''x''\<rparr>
   \<and> search matchEvidence ''EVIDENCEEVIDENCE: x: y'' = Some (''EVIDENCE'', ''x'', '': y'')
   \<and> containsCitation (''EVIDENCE'' @ '': y'')"
  by code_simp

text \<open>
  Claim C6, amended.  A bullet line that contains a citation is the text before its
  leftmost citation, the word \<open>EVIDENCE:\<close> in any letter case, white space, the tag (the
  longest run of letters, digits, dots, underscores and hyphens) and the rest; the parsed
  bullet carries exactly that tag, and its text is the text before the citation joined to
  the rest, trimmed.  When that join contains no citation, the text contains none.  A
  bullet line without a citation is parsed with no evidence tag and its trimmed self as
  text, which contains no citation.
\<close>

theorem parsed_bullet_evidence:
  "(containsCitation line \<longrightarrow>
      (\<exists>pre hdr ws tag rest.
          line = pre @ hdr @ ws @ tag @ rest
        \<and> map canonicalize hdr = ''EVIDENCE:''
        \<and> (\<forall>c \<in> set ws. isWhiteSpace c)
        \<and> tag \<noteq> [] \<and> (\<forall>c \<in> set tag. isTagChar c)
        \<and> (rest = [] \<or> \<not> isTagChar (hd rest))
        \<and> (\<forall>p u. line = p @ u \<and> length p < length pre \<longrightarrow> matchEvidence u = None)
        \<and> bullet_evidence (parseBulletLine line) = Some tag
        \<and> bullet_text (parseBulletLine line) = trim (dropTrailingWhiteSpace (pre @ rest))
        \<and> (\<not> containsCitation (pre @ rest)
             \<longrightarrow> \<not> containsCitation (bullet_text (parseBulletLine line)))))
   \<and> (\<not> containsCitation line \<longrightarrow>
        bullet_evidence (parseBulletLine line) = None
      \<and> bullet_text (parseBulletLine line) = trim (dropTrailingWhiteSpace line)
      \<and> \<not> containsCitation (bullet_text (parseBulletLine line)))"
proof (intro conjI impI)
  assume c: "containsCitation line"
  then obtain pre tag rest where m: "search matchEvidence line = Some (pre, tag, rest)"
    by (auto simp add: containsCitation_def)
  obtain u where u: "line = pre @ u" "matchEvidence u = Some (tag, rest)"
    using search_Some [OF m] by auto
  obtain hdr ws where d: "u = hdr @ ws @ tag @ rest"
      "map canonicalize hdr = map canonicalize ''EVIDENCE:''"
      "\<forall>c \<in> set ws. isWhiteSpace c" "tag \<noteq> []" "\<forall>c \<in> set tag. isTagChar c"
      "rest = [] \<or> \<not> isTagChar (hd rest)"
    using matchEvidence_Some [OF u(2)] by blast
  have canon: "map canonicalize ''EVIDENCE:'' = ''EVIDENCE:''" by code_simp
  have first: "\<forall>p u. line = p @ u \<and> length p < length pre \<longrightarrow> matchEvidence u = None"
    using search_first [OF m] by simp
  have ev: "bullet_evidence (parseBulletLine line) = Some tag"
    and tx: "bullet_text (parseBulletLine line) = trim (dropTrailingWhiteSpace (pre @ rest))"
    using m by (simp_all add: parseBulletLine_def Let_def)
  have clean: "\<not> containsCitation (pre @ rest)
      \<longrightarrow> \<not> containsCitation (bullet_text (parseBulletLine line))"
    unfolding tx using citation_survives by blast
  show "\<exists>pre hdr ws tag rest.
          line = pre @ hdr @ ws @ tag @ rest
        \<and> map canonicalize hdr = ''EVIDENCE:''
        \<and> (\<forall>c \<in> set ws. isWhiteSpace c)
        \<and> tag \<noteq> [] \<and> (\<forall>c \<in> set tag. isTagChar c)
        \<and> (rest = [] \<or> \<not> isTagChar (hd rest))
        \<and> (\<forall>p u. line = p @ u \<and> length p < length pre \<longrightarrow> matchEvidence u = None)
        \<and> bullet_evidence (parseBulletLine line) = Some tag
        \<and> bullet_text (parseBulletLine line) = trim (dropTrailingWhiteSpace (pre @ rest))
        \<and> (\<not> containsCitation (pre @ rest)
             \<longrightarrow> \<not> containsCitation (bullet_text (parseBulletLine line)))"
    using u(1) d canon first ev tx clean by (intro exI [of _ pre] exI [of _ hdr] exI [of _ ws] exI [of _ tag] exI [of _ rest]) simp
next
  assume n: "\<not> containsCitation line"
  then have m: "search matchEvidence line = None" unfolding containsCitation_def by blast
  show "bullet_evidence (parseBulletLine line) = None"
    using m by (simp add: parseBulletLine_def Let_def)
  show tx: "bullet_text (parseBulletLine line) = trim (dropTrailingWhiteSpace line)"
    using m by (simp add: parseBulletLine_def Let_def)
  show "\<not> containsCitation (bullet_text (parseBulletLine line))"
    unfolding tx using citation_survives n by blast
qed

theorem parsed_bullet_evidence_witness:
  "bullet_evidence (parseBulletLine ''- Strong code (EVIDENCE: technical_score)'') = Some ''technical_score''
   \<and> bullet_text (parseBulletLine ''- Strong code (EVIDENCE: technical_score)'') = ''- Strong code ()''
   \<and> \<not> containsCitation (bullet_text (parseBulletLine ''- Strong code (EVIDENCE: technical_score)''))
   \<and> bullet_evidence (parseBulletLine ''- Calm under pressure'') = None"
proof -
  have c1: "containsCitation ''- Strong code (EVIDENCE: technical_score)''" by code_simp
  have ev: "bullet_evidence (parseBulletLine ''- Strong code (EVIDENCE: technical_score)'')
      = Some ''technical_score''" by code_simp
  have tx: "bullet_text (parseBulletLine ''- Strong code (EVIDENCE: technical_score)'')
      = ''- Strong code ()''" by code_simp
  have c2: "\<not> containsCitation ''- Calm under pressure''" by code_simp
  note t1 = parsed_bullet_evidence [of "''- Strong code (EVIDENCE: technical_score)''",
      THEN conjunct1, THEN mp, OF c1]
  note t2 = parsed_bullet_evidence [of "''- Calm under pressure''", THEN conjunct2, THEN mp, OF c2]
  have clean: "\<not> containsCitation (bullet_text (parseBulletLine ''- Strong code (EVIDENCE: technical_score)''))"
    unfolding tx by code_simp
  have none: "bullet_evidence (parseBulletLine ''- Calm under pressure'') = None"
    using t2 by (rule conjunct1)
  show ?thesis using t1 ev tx clean none by (intro conjI)
qed

subsection \<open>Originality\<close>

text \<open>
  Claim C7, as stated, fails where the exact percentage is halfway between two integers:
  for 23 typed and 17 pasted characters it is 57.5, which rounds to 58, but the double
  \<open>23 / 40\<close> times 100 is just below 57.5 and the chart shows 57.
\<close>

theorem typed_percent_double_counterexample:
  "typedPercent \<lparr>typed = 23, pasted = 17\<rparr> = 57 \<and> round (100 * 23 / (23 + 17) :: rat) = 58"
  by code_simp

lemma foldl_addBreakdown:
  "typed (foldl addBreakdown acc subs)
     = typed acc + sum_list (map (\<lambda>s. case char_breakdown s of None \<Rightarrow> 0 | Some b \<Rightarrow> typed b) subs)
   \<and> pasted (foldl addBreakdown acc subs)
     = pasted acc + sum_list (map (\<lambda>s. case char_breakdown s of None \<Rightarrow> 0 | Some b \<Rightarrow> pasted b) subs)"
  by (induction subs arbitrary: acc) (auto simp add: addBreakdown_def Let_def split: option.splits)

lemma ilog2_le:
  assumes "0 < x"
  shows "2 powi (ilog2 x) \<le> x"
proof -
  obtain a b where ab: "quotient_of x = (a, b)" by (cases "quotient_of x")
  have b: "0 < b" using ab by (rule quotient_of_denom_pos)
  have x: "x = of_int a / of_int b" using ab by (rule quotient_of_div)
  have a: "0 < a"
    using assms b unfolding x by (simp add: zero_less_divide_iff)
  have la: "1 \<le> bitlen a" using a bitlen_eq_zero_iff [of a] bitlen_nonneg [of a] by linarith
  have "(2::int) ^ nat (bitlen a - 1) \<le> a" using bitlen_bounds [OF a] by simp
  then have "(of_int ((2::int) ^ nat (bitlen a - 1)) :: rat) \<le> of_int a" by (simp only: of_int_le_iff)
  then have num: "(2::rat) powi (bitlen a - 1) \<le> of_int a"
    using la by (simp add: power_int_def)
  have "b < (2::int) ^ nat (bitlen b)" using bitlen_bounds [OF b] by simp
  then have "(of_int b :: rat) < of_int ((2::int) ^ nat (bitlen b))" by (simp only: of_int_less_iff)
  then have den: "(of_int b :: rat) \<le> 2 powi (bitlen b)"
    using bitlen_nonneg [of b] by (simp add: power_int_def)
  have "(2::rat) powi (bitlen a - bitlen b - 1) = 2 powi (bitlen a - 1) / 2 powi (bitlen b)"
    using power_int_diff [of "2::rat" "bitlen a - 1" "bitlen b"] by (simp add: algebra_simps)
  also have "\<dots> \<le> of_int a / of_int b"
    using num den b a by (intro frac_le) simp_all
  finally have low: "(2::rat) powi (bitlen a - bitlen b - 1) \<le> x" using x by simp
  show ?thesis
    using low ab by (simp add: ilog2_def Let_def)
qed

lemma roundHalfEven_error: "\<bar>of_int (roundHalfEven q) - q\<bar> \<le> 1 / 2"
proof -
  have "of_int \<lfloor>q\<rfloor> \<le> q" "q < of_int \<lfloor>q\<rfloor> + 1" by linarith+
  then show ?thesis by (auto simp add: roundHalfEven_def Let_def)
qed

lemma fl_error:
  assumes "0 < x"
  shows "\<bar>fl x - x\<bar> \<le> x / 2 ^ 53"
proof -
  define u :: rat where "u = 2 powi (ilog2 x - 52)"
  define n where "n = roundHalfEven (x / u)"
  have u: "0 < u" by (simp add: u_def)
  have flx: "fl x = of_int n * u"
    using assms by (simp add: fl_def Let_def u_def n_def)
  have "\<bar>of_int n - x / u\<bar> \<le> 1 / 2" unfolding n_def by (rule roundHalfEven_error)
  then have "\<bar>of_int n - x / u\<bar> * u \<le> 1 / 2 * u" using u by (intro mult_right_mono) simp_all
  moreover have "\<bar>of_int n - x / u\<bar> * u = \<bar>of_int n * u - x\<bar>"
  proof -
    have "(of_int n - x / u) * u = of_int n * u - x" using u by (simp add: left_diff_distrib)
    then have "\<bar>of_int n * u - x\<bar> = \<bar>of_int n - x / u\<bar> * \<bar>u\<bar>"
      by (simp only: abs_mult [symmetric])
    then show ?thesis using u by (simp only: abs_of_pos)
  qed
  ultimately have e1: "\<bar>fl x - x\<bar> \<le> u / 2" using flx by simp
  have "u = 2 powi (ilog2 x) / 2 ^ 52"
    using power_int_diff [of "2::rat" "ilog2 x" 52] by (simp add: u_def)
  then have "u / 2 = 2 powi (ilog2 x) / 2 ^ 53" by simp
  also have "\<dots> \<le> x / 2 ^ 53" using ilog2_le [OF assms] by (simp add: divide_right_mono)
  finally show ?thesis using e1 by linarith
qed

lemma fl_zero: "fl 0 = 0"
  by (simp add: fl_def)

lemma product_error:
  assumes "0 \<le> q" and "q \<le> 1"
  shows "\<bar>fl (fl q * 100) - 100 * q\<bar> \<le> 201 / 2 ^ 53"
proof (cases "q = 0")
  case True
  then show ?thesis by (simp add: fl_zero)
next
  case False
  then have q: "0 < q" using assms(1) by simp
  have e1: "\<bar>fl q - q\<bar> \<le> q / 2 ^ 53" using q by (rule fl_error)
  have "q / 2 ^ 53 \<le> 1 / 2 ^ 53" using assms(2) by (simp add: divide_right_mono)
  then have e1': "\<bar>fl q - q\<bar> \<le> 1 / 2 ^ 53" using e1 by linarith
  have "q / 2 ^ 53 < q" using q by simp
  then have pos: "0 < fl q" using e1 by linarith
  have up: "fl q \<le> 1 + 1 / 2 ^ 53" using e1' assms(2) by linarith
  have y: "0 < fl q * 100" using pos by simp
  have e2: "\<bar>fl (fl q * 100) - fl q * 100\<bar> \<le> fl q * 100 / 2 ^ 53" using y by (rule fl_error)
  have "fl q * 100 / 2 ^ 53 \<le> (1 + 1 / 2 ^ 53) * 100 / 2 ^ 53"
    using up by (simp add: divide_right_mono)
  also have "\<dots> \<le> 101 / 2 ^ 53" by simp
  finally have e2': "\<bar>fl (fl q * 100) - fl q * 100\<bar> \<le> 101 / 2 ^ 53" using e2 by linarith
  have "\<bar>fl q * 100 - 100 * q\<bar> = 100 * \<bar>fl q - q\<bar>" by (simp add: abs_if)
  then have e3: "\<bar>fl q * 100 - 100 * q\<bar> \<le> 100 / 2 ^ 53" using e1' by simp
  show ?thesis using e2' e3 by linarith
qed

lemma round_stable:
  fixes t n :: nat and p :: rat
  assumes n: "0 < n" "n < 2 ^ 44"
    and p: "\<bar>p - 100 * of_nat t / of_nat n\<bar> \<le> 201 / 2 ^ 53"
  shows "(\<not> halfway t n \<longrightarrow> MathRound p = round (100 * of_nat t / of_nat n :: rat))
       \<and> (MathRound p = round (100 * of_nat t / of_nat n :: rat)
            \<or> MathRound p = round (100 * of_nat t / of_nat n :: rat) - 1)"
proof -
  define M :: int where "M = 200 * int t + int n"
  define D :: int where "D = 2 * int n"
  define x :: rat where "x = 100 * of_nat t / of_nat n"
  define k where "k = M div D"
  have D: "0 < D" using n(1) by (simp add: D_def)
  have y: "x + 1 / 2 = of_int M / of_int D"
    using n(1) by (simp add: x_def M_def D_def field_simps)
  have k: "round x = k"
    unfolding round_def y k_def by (simp add: floor_divide_of_int_eq)
  have split: "of_int M = of_int D * (of_int k :: rat) + of_int (M mod D)"
    unfolding k_def by (metis mult_div_mod_eq of_int_add of_int_mult)
  have frac: "x + 1 / 2 - of_int k = of_int (M mod D) / of_int D"
    unfolding y using D split by (simp add: field_simps)
  have m0: "0 \<le> M mod D" and m1: "M mod D < D" using D by simp_all
  have "201 * D < 201 * 2 ^ 45" using n(2) by (simp add: D_def)
  then have Dsmall: "201 * D < 2 ^ 53" by simp
  have eps: "(201 / 2 ^ 53 :: rat) < 1 / of_int D"
  proof -
    have "(of_int (201 * D) :: rat) < of_int (2 ^ 53)" using Dsmall by (simp only: of_int_less_iff)
    then have "201 * (of_int D :: rat) < 2 ^ 53" by simp
    then show ?thesis using D by (simp add: field_simps)
  qed
  have Dge: "(1 / of_int D :: rat) \<le> 1 / 2"
    using n(1) by (simp add: D_def field_simps)
  define eps :: rat where "eps = 201 / 2 ^ 53"
  define d :: rat where "d = 1 / of_int D"
  define r :: rat where "r = of_int (M mod D) / of_int D"
  have epsd: "eps < d" using eps by (simp only: eps_def d_def)
  have dhalf: "d \<le> 1 / 2" using Dge by (simp only: d_def)
  have "\<bar>p - x\<bar> \<le> eps" using p by (simp only: x_def eps_def)
  then have near: "x - eps \<le> p" "p \<le> x + eps" by linarith+
  have fr: "x + 1 / 2 = of_int k + r" using frac unfolding r_def by linarith
  have tie: "halfway t n \<longleftrightarrow> M mod D = 0"
  proof -
    have "halfway t n \<longleftrightarrow> int (2 * n) dvd int (200 * t + n)"
      unfolding halfway_def by (simp only: int_dvd_int_iff)
    then show ?thesis by (simp add: M_def D_def dvd_eq_mod_eq_0)
  qed
  have r0: "0 \<le> r" using m0 D by (simp add: r_def)
  have r1: "r \<le> 1 - d"
  proof -
    have "M mod D \<le> D - 1" using m1 by linarith
    then have "(of_int (M mod D) :: rat) \<le> of_int (D - 1)" by (simp only: of_int_le_iff)
    then have "(of_int (M mod D) :: rat) \<le> of_int D - 1" by simp
    then have "of_int (M mod D) / (of_int D :: rat) \<le> (of_int D - 1) / of_int D"
      using D by (simp add: divide_right_mono)
    also have "(of_int D - 1) / (of_int D :: rat) = 1 - 1 / of_int D"
      using D by (simp add: diff_divide_distrib)
    finally show ?thesis by (simp only: r_def d_def)
  qed
  have general: "MathRound p = k \<or> MathRound p = k - 1"
  proof -
    have "of_int (k - 1) \<le> p + 1 / 2" "p + 1 / 2 < of_int (k - 1) + 2"
      using near fr r0 r1 epsd dhalf by simp_all
    then have "\<lfloor>p + 1 / 2\<rfloor> = k - 1 \<or> \<lfloor>p + 1 / 2\<rfloor> = k" by linarith
    then show ?thesis by (auto simp add: MathRound_def)
  qed
  have exact: "MathRound p = k" if "\<not> halfway t n"
  proof -
    have "1 \<le> M mod D" using that tie m0 by linarith
    then have "(of_int 1 :: rat) \<le> of_int (M mod D)" by (simp only: of_int_le_iff)
    then have "1 / (of_int D :: rat) \<le> of_int (M mod D) / of_int D"
      using D by (simp add: divide_right_mono)
    then have "d \<le> r" by (simp only: r_def d_def)
    then have "of_int k \<le> p + 1 / 2" "p + 1 / 2 < of_int k + 1"
      using near fr r1 epsd by linarith+
    then have "\<lfloor>p + 1 / 2\<rfloor> = k" by linarith
    then show ?thesis by (simp add: MathRound_def)
  qed
  show ?thesis using general exact k by (simp add: x_def)
qed

text \<open>
  Claim C7, amended.  The originality breakdown is the field-wise sum of the submissions'
  typed and pasted counts, a submission without a breakdown adding zero.  For a positive
  total below \<open>2\<^sup>4\<^sup>4\<close>, the typed percentage shown is
  \<open>round (100 \<sqdot> typed / (typed + pasted))\<close> whenever that quotient is not exactly halfway
  between two integers, and otherwise it is that value or one less; the pasted percentage
  is 100 minus the typed percentage.
\<close>

theorem originality_breakdown_and_percent:
  "typed (originalityBreakdown candidate)
     = sum_list (map (\<lambda>s. case char_breakdown s of None \<Rightarrow> 0 | Some b \<Rightarrow> typed b)
         (submissions candidate))
   \<and> pasted (originalityBreakdown candidate)
     = sum_list (map (\<lambda>s. case char_breakdown s of None \<Rightarrow> 0 | Some b \<Rightarrow> pasted b)
         (submissions candidate))
   \<and> (0 < typed cb + pasted cb \<and> typed cb + pasted cb < 2 ^ 44 \<longrightarrow>
        (\<not> halfway (typed cb) (typed cb + pasted cb) \<longrightarrow>
           typedPercent cb = round (100 * of_nat (typed cb) / of_nat (typed cb + pasted cb) :: rat))
      \<and> (typedPercent cb = round (100 * of_nat (typed cb) / of_nat (typed cb + pasted cb) :: rat)
          \<or> typedPercent cb = round (100 * of_nat (typed cb) / of_nat (typed cb + pasted cb) :: rat) - 1)
      \<and> pastedPercent cb = 100 - typedPercent cb)"
proof -
  have sums: "typed (originalityBreakdown candidate)
     = sum_list (map (\<lambda>s. case char_breakdown s of None \<Rightarrow> 0 | Some b \<Rightarrow> typed b)
         (submissions candidate))
   \<and> pasted (originalityBreakdown candidate)
     = sum_list (map (\<lambda>s. case char_breakdown s of None \<Rightarrow> 0 | Some b \<Rightarrow> pasted b)
         (submissions candidate))"
    using foldl_addBreakdown [of "\<lparr>typed = 0, pasted = 0\<rparr>" "submissions candidate"]
    by (simp add: originalityBreakdown_def)
  have third: "0 < typed cb + pasted cb \<and> typed cb + pasted cb < 2 ^ 44 \<longrightarrow>
        (\<not> halfway (typed cb) (typed cb + pasted cb) \<longrightarrow>
           typedPercent cb = round (100 * of_nat (typed cb) / of_nat (typed cb + pasted cb) :: rat))
      \<and> (typedPercent cb = round (100 * of_nat (typed cb) / of_nat (typed cb + pasted cb) :: rat)
          \<or> typedPercent cb = round (100 * of_nat (typed cb) / of_nat (typed cb + pasted cb) :: rat) - 1)
      \<and> pastedPercent cb = 100 - typedPercent cb"
  proof (intro impI, elim conjE)
    assume pos: "0 < typed cb + pasted cb" and small: "typed cb + pasted cb < 2 ^ 44"
    show "(\<not> halfway (typed cb) (typed cb + pasted cb) \<longrightarrow>
           typedPercent cb = round (100 * of_nat (typed cb) / of_nat (typed cb + pasted cb) :: rat))
      \<and> (typedPercent cb = round (100 * of_nat (typed cb) / of_nat (typed cb + pasted cb) :: rat)
          \<or> typedPercent cb = round (100 * of_nat (typed cb) / of_nat (typed cb + pasted cb) :: rat) - 1)
      \<and> pastedPercent cb = 100 - typedPercent cb"
    proof -
    define n where "n = typed cb + pasted cb"
    define q :: rat where "q = of_nat (typed cb) / of_nat n"
    have n: "0 < n" "n < 2 ^ 44" using pos small by (simp_all add: n_def)
    have q0: "0 \<le> q" by (simp add: q_def)
    have "typed cb \<le> n" by (simp add: n_def)
    then have q1: "q \<le> 1" using n(1) by (simp add: q_def divide_le_eq_1)
    have tp: "typedPercent cb = MathRound (fl (fl q * 100))"
      using n(1) by (simp add: typedPercent_def Let_def n_def q_def)
    have "\<bar>fl (fl q * 100) - 100 * q\<bar> \<le> 201 / 2 ^ 53" using q0 q1 by (rule product_error)
    then have close: "\<bar>fl (fl q * 100) - 100 * of_nat (typed cb) / of_nat n\<bar> \<le> 201 / 2 ^ 53"
      by (simp add: q_def)
    have pp: "pastedPercent cb = 100 - typedPercent cb"
      using n(1) by (simp add: pastedPercent_def Let_def n_def)
    note rs = round_stable [OF n close, folded tp, unfolded n_def]
    show ?thesis
      by (rule conjI [OF conjunct1 [OF rs] conjI [OF conjunct2 [OF rs] pp]])
  qed
  qed
  show ?thesis
    by (rule conjI [OF conjunct1 [OF sums] conjI [OF conjunct2 [OF sums] third]])
qed

theorem originality_breakdown_and_percent_witness:
  "typed (originalityBreakdown
      \<lparr>technical_score = 50, ai_rationale = None, hiring_recommendation = None,
       submissions =
         [\<lparr>sub_is_passed = True, sub_tests_passed = 3, sub_tests_total = Some 3,
            char_breakdown = Some \<lparr>typed = 20, pasted = 10\<rparr>\<rparr>,
          \<lparr>sub_is_passed = False, sub_tests_passed = 0, sub_tests_total = None,
            char_breakdown = None\<rparr>,
          \<lparr>sub_is_passed = False, sub_tests_passed = 1, sub_tests_total = Some 4,
            char_breakdown = Some \<lparr>typed = 10, pasted = 0\<rparr>\<rparr>],
       resume_skills = [], resume_experience_zone = [], resume_experience_years = None\<rparr>) = 30
   \<and> typedPercent \<lparr>typed = 30, pasted = 10\<rparr> = 75
   \<and> pastedPercent \<lparr>typed = 30, pasted = 10\<rparr> = 25"
proof -
  let ?c = "\<lparr>technical_score = 50, ai_rationale = None, hiring_recommendation = None,
       submissions =
         [\<lparr>sub_is_passed = True, sub_tests_passed = 3, sub_tests_total = Some 3,
            char_breakdown = Some \<lparr>typed = 20, pasted = 10\<rparr>\<rparr>,
          \<lparr>sub_is_passed = False, sub_tests_passed = 0, sub_tests_total = None,
            char_breakdown = None\<rparr>,
          \<lparr>sub_is_passed = False, sub_tests_passed = 1, sub_tests_total = Some 4,
            char_breakdown = Some \<lparr>typed = 10, pasted = 0\<rparr>\<rparr>],
       resume_skills = [], resume_experience_zone = [], resume_experience_years = None\<rparr>"
  let ?cb = "\<lparr>typed = 30, pasted = 10\<rparr>"
  note t = originality_breakdown_and_percent [of ?c ?cb]
  have range: "0 < typed ?cb + pasted ?cb \<and> typed ?cb + pasted ?cb < 2 ^ 44" by simp
  have nh: "\<not> halfway (typed ?cb) (typed ?cb + pasted ?cb)" by code_simp
  have r: "round (100 * of_nat (typed ?cb) / of_nat (typed ?cb + pasted ?cb) :: rat) = 75"
    by code_simp
  note p = t [THEN conjunct2, THEN conjunct2, THEN mp, OF range]
  have a: "typed (originalityBreakdown ?c) = 30"
    using t [THEN conjunct1] by simp
  have b: "typedPercent ?cb = 75"
    using p [THEN conjunct1, THEN mp, OF nh] r by simp
  have c: "pastedPercent ?cb = 25"
    using p [THEN conjunct2, THEN conjunct2] b by simp
  show ?thesis using a b c by (intro conjI)
qed

end
